theory Spec2Isabelle
  imports Complex_Main
begin
section \<open>TechnicalAnalyzer (src/site_analyzer.py)\<close>

text \<open>
  Python exceptions are values. \<open>RequestException\<close> is the class that
  \<^verbatim>\<open>check_url\<close> and \<^verbatim>\<open>validate_sitemap\<close> catch by name; every other
  constructor is an \<^verbatim>\<open>Exception\<close> that is not a \<open>RequestException\<close>.
  \<open>str_of\<close> is \<^verbatim>\<open>str(e)\<close>.
\<close>

datatype error =
    RequestException string
  | AttributeError string
  | TypeError string
  | SyntaxError string
  | RetryError string
  | OtherError string

fun str_of :: "error \<Rightarrow> string" where
  "str_of (RequestException m) = m"
| "str_of (AttributeError m) = m"
| "str_of (TypeError m) = m"
| "str_of (SyntaxError m) = m"
| "str_of (RetryError m) = m"
| "str_of (OtherError m) = m"

text \<open>
  What \<^verbatim>\<open>session.head(url, allow_redirects=True)\<close> gives back: the final status,
  the URLs of \<^verbatim>\<open>response.history\<close> and \<^verbatim>\<open>response.url\<close>.
\<close>

record response =
  status_code :: nat
  history :: "string list"
  final_url :: string

datatype head_outcome =
    Responded response
  | HeadFailed string   \<comment> \<open>session.head raised a requests.RequestException\<close>
  | HeadRaised error    \<comment> \<open>session.head raised something else\<close>

text \<open>
  One entry of \<^verbatim>\<open>self.redirect_chains\<close>. The \<^verbatim>\<open>latency\<close> entry is a wall-clock
  measurement and is left out.
\<close>

record chain_info =
  chain :: "string list"
  count :: nat
  final_status :: nat
  has_loop :: bool

text \<open>\<^verbatim>\<open>self.broken_links\<close> is keyed by a status code or by the string 'error'.\<close>

datatype broken_key = StatusKey nat | ErrorKey

datatype broken_entry =
    StatusEntry string bool "chain_info option"  \<comment> \<open>url, is_internal, redirect_chain\<close>
  | ErrorEntry string bool string                \<comment> \<open>url, is_internal, error\<close>

text \<open>
  The attributes of a \<^verbatim>\<open>TechnicalAnalyzer\<close>, and \<open>head_log\<close>: the HEAD requests
  sent through \<^verbatim>\<open>self.session\<close> so far, in order.
\<close>

record tech =
  broken_links :: "broken_key \<Rightarrow> broken_entry list"
  redirect_chains :: "string \<Rightarrow> chain_info option"
  sitemap_issues :: "string list"
  redirect_loops :: nat
  head_log :: "string list"

definition tech_init :: tech where
  "tech_init = \<lparr> broken_links = (\<lambda>_. []), redirect_chains = (\<lambda>_. None),
      sitemap_issues = [], redirect_loops = 0, head_log = [] \<rparr>"

subsection \<open>The sitemap documents\<close>

text \<open>
  \<^verbatim>\<open>ET.fromstring(response.content)\<close> either raises \<^verbatim>\<open>ET.ParseError\<close> or gives
  a root element. Of the root the code reads its tag and two queries; each query result is
  either the list found or the message of the exception the query raised (ElementTree raises
  one when the prefix \<^verbatim>\<open>ns\<close> is not in the namespace map, which the code leaves empty
  for a root tag without a namespace). An element's \<^verbatim>\<open>.text\<close> is \<open>None\<close> when
  the element is empty; a \<^verbatim>\<open>loc\<close> inside a \<^verbatim>\<open>url\<close> is taken to carry text.
\<close>

record url_elem =
  loc :: "string option"                 \<comment> \<open>url.find('ns:loc'), its text\<close>
  lastmod :: "string option option"      \<comment> \<open>url.find('ns:lastmod'), its text\<close>
  priority :: "string option option"     \<comment> \<open>url.find('ns:priority'), its text\<close>

record xml_root =
  root_tag :: string
  loc_texts :: "error + string option list"   \<comment> \<open>root.findall('.//ns:loc', namespace)\<close>
  url_elems :: "error + url_elem list"        \<comment> \<open>root.findall('.//ns:url', namespace)\<close>

datatype xml_parse = ParseError string | Parsed xml_root

datatype get_outcome =
    GetResponse nat xml_parse   \<comment> \<open>status code, and the body as ET.fromstring sees it\<close>
  | GetFailed string            \<comment> \<open>session.get raised a requests.RequestException\<close>

text \<open>\<^verbatim>\<open>float(text)\<close>: a finite number, or inf/nan; \<open>None\<close> is ValueError.\<close>

datatype pyfloat = Finite rat | NonFinite

subsection \<open>Rendered pages\<close>

text \<open>A JSON value, as \<^verbatim>\<open>json.loads\<close> returns it.\<close>

datatype json =
    JObject "(string \<times> json) list"
  | JArray "json list"
  | JString string
  | JNumber int
  | JBool bool
  | JNull

text \<open>
  A \<^verbatim>\<open>script type="application/ld+json"\<close> element, by what
  \<^verbatim>\<open>json.loads(script.string)\<close> does: TypeError when \<^verbatim>\<open>script.string\<close> is
  \<open>None\<close>, JSONDecodeError with a message, or a value.
\<close>

datatype ld_script = NoString | Malformed string | Json json

text \<open>
  What the analyzers read of a parsed page (the \<^verbatim>\<open>soup\<close>):
  \<^item> \<open>p_title\<close>: \<open>None\<close> without a title element, \<open>Some None\<close> when
    \<^verbatim>\<open>soup.title.string\<close> is \<open>None\<close>;
  \<^item> \<open>p_meta_description\<close>, \<open>p_meta_robots\<close>, \<open>p_canonical\<close>: the \<^verbatim>\<open>content\<close> or
    \<^verbatim>\<open>href\<close> attribute of the first matching element, \<open>None\<close> when the element or
    the attribute is missing;
  \<^item> \<open>p_headings i\<close>: the texts of the \<^verbatim>\<open>h\<close>i elements;
  \<^item> \<open>p_images\<close>: \<^verbatim>\<open>src\<close> and \<^verbatim>\<open>alt\<close> of every \<^verbatim>\<open>img\<close>, empty when missing;
  \<^item> \<open>p_main_content\<close>: the text of the first of main, article, div.content, div#content;
  \<^item> \<open>p_json_ld\<close>, \<open>p_microdata\<close>, \<open>p_rdfa\<close>: the JSON-LD scripts, the
    \<^verbatim>\<open>itemtype\<close> values and the \<^verbatim>\<open>vocab\<close> values, in document order;
  \<^item> \<open>p_links\<close>: the \<^verbatim>\<open>href\<close> of every \<^verbatim>\<open>a\<close> element that has one.
\<close>

record page =
  p_title :: "string option option"
  p_meta_description :: "string option"
  p_headings :: "nat \<Rightarrow> string list"
  p_images :: "(string \<times> string) list"
  p_main_content :: "string option"
  p_meta_robots :: "string option"
  p_canonical :: "string option"
  p_json_ld :: "ld_script list"
  p_microdata :: "string list"
  p_rdfa :: "string list"
  p_links :: "string list"

text \<open>
  The network and the library functions the program calls. \<open>head_response env url k\<close> is
  the outcome of the HEAD request to \<open>url\<close> when \<open>k\<close> HEAD requests were sent to it
  before, and \<open>page_source env url k\<close> is what the browser gives for \<open>url\<close> when it was
  loaded \<open>k\<close> times before (\<open>None\<close>: a timeout, an error or an empty page), so that a
  failure can be transient. A sitemap URL that \<open>sitemap_docs\<close> does not list cannot be
  fetched. \<^verbatim>\<open>urlparse\<close> is taken to succeed; \<open>urljoin env base href = None\<close> stands for
  the ValueError of \<^verbatim>\<open>urljoin\<close>.
\<close>

record net =
  head_response :: "string \<Rightarrow> nat \<Rightarrow> head_outcome"
  sitemap_docs :: "(string \<times> get_outcome) list"
  netloc :: "string \<Rightarrow> string"            \<comment> \<open>urlparse(s).netloc\<close>
  is_iso :: "string \<Rightarrow> bool"               \<comment> \<open>datetime.fromisoformat(s) does not raise\<close>
  parse_float :: "string \<Rightarrow> pyfloat option"  \<comment> \<open>float(s)\<close>
  url_scheme :: "string \<Rightarrow> string"        \<comment> \<open>urlparse(s).scheme\<close>
  urljoin :: "string \<Rightarrow> string \<Rightarrow> string option"
  page_source :: "string \<Rightarrow> nat \<Rightarrow> page option"
  robots_txt :: "string \<Rightarrow> string option"  \<comment> \<open>the text of a 200 answer to requests.get\<close>
  content_hash :: "string \<Rightarrow> int"          \<comment> \<open>hash(content_text)\<close>
  fk_grade :: "string \<Rightarrow> rat option"       \<comment> \<open>textstat.flesch_kincaid_grade, None if it raises\<close>

definition session_get :: "net \<Rightarrow> string \<Rightarrow> get_outcome" where
  "session_get env u =
     (case map_of (sitemap_docs env) u of
        None \<Rightarrow> GetFailed ''connection failed''
      | Some r \<Rightarrow> r)"

subsection \<open>check_url\<close>

text \<open>\<^verbatim>\<open>len(set(chain)) < len(chain)\<close>\<close>

definition chain_has_loop :: "string list \<Rightarrow> bool" where
  "chain_has_loop c = (length (remdups c) < length c)"

definition append_broken :: "broken_key \<Rightarrow> broken_entry \<Rightarrow> tech \<Rightarrow> tech" where
  "append_broken k e st = st\<lparr> broken_links := (broken_links st)(k := broken_links st k @ [e]) \<rparr>"

definition record_chain :: "string \<Rightarrow> response \<Rightarrow> tech \<Rightarrow> tech" where
  "record_chain url r st =
     (if length (history r) > 0 then
        (let c = history r @ [final_url r];
             loop = chain_has_loop c;
             st1 = (if loop then st\<lparr> redirect_loops := redirect_loops st + 1 \<rparr> else st)
         in st1\<lparr> redirect_chains := (redirect_chains st1)(url :=
               Some \<lparr> chain = c, count = length (history r),
                      final_status = status_code r, has_loop = loop \<rparr>) \<rparr>)
      else st)"

definition record_broken :: "string \<Rightarrow> bool \<Rightarrow> response \<Rightarrow> tech \<Rightarrow> tech" where
  "record_broken url is_internal r st =
     (if status_code r \<ge> 400 then
        append_broken (StatusKey (status_code r))
          (StatusEntry url is_internal (redirect_chains st url)) st
      else st)"

text \<open>
  The body of \<^verbatim>\<open>check_url\<close>, one attempt: the \<^verbatim>\<open>try\<close> block, and the
  \<^verbatim>\<open>except requests.RequestException\<close> clause, which records the failure and returns
  \<open>None\<close>. Any other exception leaves the body.
\<close>

definition check_url_body :: "net \<Rightarrow> string \<Rightarrow> bool \<Rightarrow> tech \<Rightarrow> (error + response option) \<times> tech" where
  "check_url_body env url is_internal st =
     (let k = count_list (head_log st) url;
          st0 = st\<lparr> head_log := head_log st @ [url] \<rparr>
      in case head_response env url k of
           Responded r \<Rightarrow>
             (Inr (Some r), record_broken url is_internal r (record_chain url r st0))
         | HeadFailed msg \<Rightarrow>
             (Inr None, append_broken ErrorKey (ErrorEntry url is_internal msg) st0)
         | HeadRaised e \<Rightarrow> (Inl e, st0))"

text \<open>
  The decorator \<^verbatim>\<open>@retry(stop=stop_after_attempt(3), wait=wait_exponential(...))\<close> of the
  tenacity library: the call is repeated while it raises; \<open>retry_call n\<close> allows \<open>n\<close>
  more attempts after the next one, and when the last attempt raises too, tenacity raises
  \<open>RetryError\<close>. A call that returns (whatever it returns) is not repeated. The sleeps
  between attempts are not modelled.
\<close>

primrec retry_call :: "nat \<Rightarrow> ('s \<Rightarrow> (error + 'a) \<times> 's) \<Rightarrow> 's \<Rightarrow> (error + 'a) \<times> 's" where
  "retry_call 0 f st =
     (case f st of
        (Inr v, st') \<Rightarrow> (Inr v, st')
      | (Inl e, st') \<Rightarrow> (Inl (RetryError (str_of e)), st'))"
| "retry_call (Suc n) f st =
     (case f st of
        (Inr v, st') \<Rightarrow> (Inr v, st')
      | (Inl e, st') \<Rightarrow> retry_call n f st')"

definition check_url :: "net \<Rightarrow> string \<Rightarrow> bool \<Rightarrow> tech \<Rightarrow> (error + response option) \<times> tech" where
  "check_url env url is_internal = retry_call 2 (check_url_body env url is_internal)"

subsection \<open>validate_sitemap\<close>

definition add_issue :: "string \<Rightarrow> tech \<Rightarrow> tech" where
  "add_issue s st = st\<lparr> sitemap_issues := sitemap_issues st @ [s] \<rparr>"

text \<open>\<^verbatim>\<open>needle in haystack\<close> on strings.\<close>

fun contains :: "string \<Rightarrow> string \<Rightarrow> bool" where
  "contains needle [] = (needle = [])"
| "contains needle (c # cs) =
     (take (length needle) (c # cs) = needle \<or> contains needle cs)"

text \<open>Decimal digits of a status code, for the f-strings.\<close>

fun show_nat :: "nat \<Rightarrow> string" where
  "show_nat n =
     (if n < 10 then [char_of (48 + n)]
      else show_nat (n div 10) @ [char_of (48 + n mod 10)])"

declare show_nat.simps [simp del]

text \<open>\<^verbatim>\<open>text.replace('Z', '+00:00')\<close>\<close>

definition replace_Z :: "string \<Rightarrow> string" where
  "replace_Z s = concat (map (\<lambda>c. if c = CHR ''Z'' then ''+00:00'' else [c]) s)"

text \<open>
  The truth value of a requests response is its \<^verbatim>\<open>ok\<close> property: false for a
  status from 400 to 599.
\<close>

definition response_ok :: "response \<Rightarrow> bool" where
  "response_ok r = (\<not> (400 \<le> status_code r \<and> status_code r < 600))"

text \<open>
  The three checks on one \<^verbatim>\<open>url\<close> element of a urlset. Each gives the exception
  that leaves it, if any: \<^verbatim>\<open>check_url\<close> can raise \<open>RetryError\<close>,
  \<^verbatim>\<open>lastmod.text.replace\<close> raises AttributeError and \<^verbatim>\<open>float(priority.text)\<close>
  raises TypeError when the text is \<open>None\<close>. The ValueError of a malformed date or
  number is caught on the spot.
\<close>

definition check_loc :: "net \<Rightarrow> string option \<Rightarrow> tech \<Rightarrow> error option \<times> tech" where
  "check_loc env l st =
     (case l of
        None \<Rightarrow> (None, st)
      | Some url_to_check \<Rightarrow>
          (case check_url env url_to_check True st of
             (Inl e, st') \<Rightarrow> (Some e, st')
           | (Inr None, st') \<Rightarrow> (None, st')
           | (Inr (Some r), st') \<Rightarrow>
               (if response_ok r \<and> status_code r \<notin> {200, 301} then
                  (None, add_issue (''Invalid status '' @ show_nat (status_code r)
                                    @ '' for sitemap URL: '' @ url_to_check) st')
                else (None, st'))))"

definition check_lastmod :: "net \<Rightarrow> string option option \<Rightarrow> tech \<Rightarrow> error option \<times> tech" where
  "check_lastmod env lm st =
     (case lm of
        None \<Rightarrow> (None, st)
      | Some None \<Rightarrow> (Some (AttributeError ''NoneType has no attribute replace''), st)
      | Some (Some t) \<Rightarrow>
          (if is_iso env (replace_Z t) then (None, st)
           else (None, add_issue (''Invalid lastmod format in sitemap: '' @ t) st)))"

definition check_priority :: "net \<Rightarrow> string option option \<Rightarrow> tech \<Rightarrow> error option \<times> tech" where
  "check_priority env pr st =
     (case pr of
        None \<Rightarrow> (None, st)
      | Some None \<Rightarrow> (Some (TypeError ''float() argument must be a string or a number''), st)
      | Some (Some t) \<Rightarrow>
          (case parse_float env t of
             None \<Rightarrow> (None, add_issue (''Invalid priority format in sitemap: '' @ t) st)
           | Some NonFinite \<Rightarrow>
               (None, add_issue (''Invalid priority value in sitemap: '' @ t) st)
           | Some (Finite prio) \<Rightarrow>
               (if \<not> (0 \<le> prio \<and> prio \<le> 1) then
                  (None, add_issue (''Invalid priority value in sitemap: '' @ t) st)
                else (None, st))))"

definition validate_url :: "net \<Rightarrow> url_elem \<Rightarrow> tech \<Rightarrow> error option \<times> tech" where
  "validate_url env u st =
     (case check_loc env (loc u) st of
        (Some e, st1) \<Rightarrow> (Some e, st1)
      | (None, st1) \<Rightarrow>
          (case check_lastmod env (lastmod u) st1 of
             (Some e, st2) \<Rightarrow> (Some e, st2)
           | (None, st2) \<Rightarrow> check_priority env (priority u) st2))"

text \<open>\<^verbatim>\<open>for url in root.findall('.//ns:url', namespace)\<close>: an exception ends the loop.\<close>

fun leaf_loop :: "net \<Rightarrow> url_elem list \<Rightarrow> tech \<Rightarrow> error option \<times> tech" where
  "leaf_loop env [] st = (None, st)"
| "leaf_loop env (u # us) st =
     (case validate_url env u st of
        (Some e, st') \<Rightarrow> (Some e, st')
      | (None, st') \<Rightarrow> leaf_loop env us st')"

text \<open>
  A call of \<^verbatim>\<open>validate_sitemap\<close> gives \<open>None\<close> when the recursion is deeper than the
  fuel, and otherwise the exception that leaves the call (if any), the visited set and the
  analyzer. \<open>index_loop\<close> is the loop over the \<^verbatim>\<open>loc\<close> elements of a sitemap
  index, with the recursive call as \<open>rec\<close>. \<^verbatim>\<open>urlparse(None).netloc\<close> is empty.
\<close>

type_synonym sitemap_result = "(error option \<times> string set \<times> tech) option"

fun index_loop :: "(string \<Rightarrow> string set \<Rightarrow> tech \<Rightarrow> sitemap_result) \<Rightarrow> net \<Rightarrow>
    string option list \<Rightarrow> string set \<Rightarrow> tech \<Rightarrow> sitemap_result" where
  "index_loop rec env [] V st = Some (None, V, st)"
| "index_loop rec env (t # ts) V st =
     (let sitemap_domain = (case t of None \<Rightarrow> [] | Some s \<Rightarrow> netloc env s) in
      if sitemap_domain \<noteq> [] \<and> sitemap_domain \<notin> V then
        (case rec sitemap_domain V st of
           None \<Rightarrow> None
         | Some (Some e, V', st') \<Rightarrow> Some (Some e, V', st')
         | Some (None, V', st') \<Rightarrow> index_loop rec env ts V' st')
      else index_loop rec env ts V st)"

text \<open>The statements inside the outer \<^verbatim>\<open>try\<close>.\<close>

definition sitemap_try :: "(string \<Rightarrow> string set \<Rightarrow> tech \<Rightarrow> sitemap_result) \<Rightarrow> net \<Rightarrow>
    string \<Rightarrow> string set \<Rightarrow> tech \<Rightarrow> sitemap_result" where
  "sitemap_try rec env sitemap_url V st =
     (case session_get env sitemap_url of
        GetFailed msg \<Rightarrow> Some (Some (RequestException msg), V, st)
      | GetResponse code body \<Rightarrow>
          (if code \<noteq> 200 then
             Some (None, V, add_issue (''Sitemap not found at '' @ sitemap_url) st)
           else
             (case body of
                ParseError msg \<Rightarrow>
                  Some (None, V, add_issue (''Invalid XML in sitemap: '' @ msg) st)
              | Parsed rt \<Rightarrow>
                  (if contains ''sitemapindex'' (root_tag rt) then
                     (case loc_texts rt of
                        Inl e \<Rightarrow> Some (Some e, V, st)
                      | Inr ts \<Rightarrow> index_loop rec env ts V st)
                   else
                     (case url_elems rt of
                        Inl e \<Rightarrow> Some (Some e, V, st)
                      | Inr us \<Rightarrow>
                          (case leaf_loop env us st of
                             (eo, st') \<Rightarrow> Some (eo, V, st')))))))"

text \<open>
  The two \<^verbatim>\<open>except\<close> clauses of the outer \<^verbatim>\<open>try\<close>:
  \<^verbatim>\<open>requests.RequestException\<close> first, then \<^verbatim>\<open>Exception\<close>.
\<close>

definition sitemap_except :: "error \<Rightarrow> tech \<Rightarrow> tech" where
  "sitemap_except e st =
     (case e of
        RequestException m \<Rightarrow> add_issue (''Error fetching sitemap: '' @ m) st
      | _ \<Rightarrow> add_issue (''Unexpected error processing sitemap: '' @ str_of e) st)"

definition sitemap_url_of :: "string \<Rightarrow> string" where
  "sitemap_url_of domain = ''https://'' @ domain @ ''/sitemap.xml''"

primrec validate_sitemap :: "nat \<Rightarrow> net \<Rightarrow> string \<Rightarrow> string set \<Rightarrow> tech \<Rightarrow> sitemap_result" where
  "validate_sitemap 0 env domain V st = None"
| "validate_sitemap (Suc n) env domain V st =
     (let sitemap_url = sitemap_url_of domain in
      if sitemap_url \<in> V then Some (None, V, st)
      else
        (case sitemap_try (validate_sitemap n env) env sitemap_url (insert sitemap_url V) st of
           None \<Rightarrow> None
         | Some (None, V', st') \<Rightarrow> Some (None, V', st')
         | Some (Some e, V', st') \<Rightarrow> Some (None, V', sitemap_except e st')))"

text \<open>
  The recursion is never deeper than the number of sitemap documents plus one (proved
  below), which is the fuel of a call from outside.
\<close>

definition sitemap_fuel :: "net \<Rightarrow> nat" where
  "sitemap_fuel env = Suc (length (sitemap_docs env))"

subsection \<open>Auxiliary notions for the proofs\<close>

text \<open>The sitemap URLs that can be fetched at all.\<close>

definition docs_keys :: "net \<Rightarrow> string set" where
  "docs_keys env = fst ` set (sitemap_docs env)"

text \<open>
  \<open>grows st st'\<close>: the issue list of \<open>st'\<close> extends that of \<open>st\<close>;
  \<open>records msg st st'\<close>: \<open>msg\<close> is among the issues added from \<open>st\<close> to \<open>st'\<close>.
\<close>

definition grows :: "tech \<Rightarrow> tech \<Rightarrow> bool" where
  "grows st st' = (\<exists>new. sitemap_issues st' = sitemap_issues st @ new)"

definition records :: "string \<Rightarrow> tech \<Rightarrow> tech \<Rightarrow> bool" where
  "records msg st st' = (\<exists>a b. sitemap_issues st' = sitemap_issues st @ a @ msg # b)"

subsection \<open>Concrete networks\<close>

text \<open>
  \<^verbatim>\<open>urlparse(u).netloc\<close> and \<^verbatim>\<open>urlparse(u).scheme\<close> for URLs of the form
  \<^verbatim>\<open>scheme://host/path\<close> and for paths without \<^verbatim>\<open>//\<close>, which is all that the
  examples below contain; their links are absolute URLs, which \<^verbatim>\<open>urljoin\<close> returns as
  they are. In \<open>quiet_net\<close> every probe is answered with 200 and nothing else can be fetched.
\<close>

fun after_slashes :: "string \<Rightarrow> string option" where
  "after_slashes (a # b # cs) =
     (if a = CHR ''/'' \<and> b = CHR ''/'' then Some cs else after_slashes (b # cs))"
| "after_slashes _ = None"

definition netloc_of :: "string \<Rightarrow> string" where
  "netloc_of u =
     (case after_slashes u of
        None \<Rightarrow> []
      | Some r \<Rightarrow> takeWhile (\<lambda>c. c \<noteq> CHR ''/'' \<and> c \<noteq> CHR ''?'' \<and> c \<noteq> CHR ''#'') r)"

definition scheme_of :: "string \<Rightarrow> string" where
  "scheme_of u = (if contains '':'' u then takeWhile (\<lambda>c. c \<noteq> CHR '':'') u else [])"

definition quiet_net :: net where
  "quiet_net = \<lparr> head_response = (\<lambda>u k. Responded \<lparr> status_code = 200, history = [], final_url = u \<rparr>),
      sitemap_docs = [], netloc = netloc_of, is_iso = (\<lambda>s. s = ''2024-01-01''),
      parse_float = (\<lambda>s. if s = ''2'' then Some (Finite 2) else None),
      url_scheme = scheme_of, urljoin = (\<lambda>base href. Some href),
      page_source = (\<lambda>u k. None), robots_txt = (\<lambda>u. None),
      content_hash = (\<lambda>s. int (length s)), fk_grade = (\<lambda>s. None) \<rparr>"

definition flaky_net :: net where
  "flaky_net = quiet_net \<lparr> head_response := (\<lambda>u k.
      if k = 0 then HeadFailed ''Connection reset by peer''
      else Responded \<lparr> status_code = 200, history = [], final_url = u \<rparr>) \<rparr>"

definition loop_net :: net where
  "loop_net = quiet_net \<lparr> head_response := (\<lambda>u k.
      Responded \<lparr> status_code = 200,
                  history = [''https://example.com/loop'', ''https://example.com/a''],
                  final_url = ''https://example.com/loop'' \<rparr>) \<rparr>"

definition index_doc :: "string list \<Rightarrow> get_outcome" where
  "index_doc locs = GetResponse 200 (Parsed
     \<lparr> root_tag = ''{http://www.sitemaps.org/schemas/sitemap/0.9}sitemapindex'',
       loc_texts = Inr (map Some locs), url_elems = Inr [] \<rparr>)"

definition cycle_net :: net where
  "cycle_net = quiet_net \<lparr> sitemap_docs :=
     [(''https://a.example/sitemap.xml'', index_doc [''https://b.example/sitemap.xml'']),
      (''https://b.example/sitemap.xml'', index_doc [''https://a.example/sitemap.xml''])] \<rparr>"

definition leaf_net :: net where
  "leaf_net = quiet_net \<lparr> sitemap_docs :=
     [(''https://shop.example/sitemap.xml'', GetResponse 200 (Parsed
         \<lparr> root_tag = ''{http://www.sitemaps.org/schemas/sitemap/0.9}urlset'',
           loc_texts = Inr [],
           url_elems = Inr [\<lparr> loc = None, lastmod = Some (Some ''yesterday''),
                              priority = Some (Some ''2'') \<rparr>] \<rparr>)),
      (''https://down.example/sitemap.xml'', GetResponse 404 (ParseError []))] \<rparr>"

section \<open>SiteCrawler (src/site_analyzer.py)\<close>

subsection \<open>The crawler's attributes\<close>

text \<open>One entry of \<^verbatim>\<open>self.structured_data["implementation_methods"]\<close>.\<close>

record method_stats =
  m_count :: nat
  m_valid :: "string list"
  m_invalid :: "string list"
  m_errors :: "string list"

text \<open>
  \<^verbatim>\<open>self.structured_data\<close>. The dictionary \<^verbatim>\<open>schema_types\<close> has the fixed keys
  \<open>known_types\<close> (no key is ever added), so it is a function that is read at these keys.
\<close>

record catalog =
  schema_types :: "string \<Rightarrow> string list"
  json_ld :: method_stats
  microdata :: method_stats
  rdfa :: method_stats
  total_pages :: nat
  pages_with_schema :: nat
  pages_without_schema :: "string list"

definition known_types :: "string list" where
  "known_types = [''Organization'', ''LocalBusiness'', ''MedicalBusiness'',
     ''HealthAndBeautyBusiness'', ''Service'', ''Article'', ''BlogPosting'', ''WebPage'',
     ''FAQPage'', ''BreadcrumbList'', ''other'']"

text \<open>
  The attributes of a \<^verbatim>\<open>SiteCrawler\<close>. A \<^verbatim>\<open>defaultdict\<close> whose keys are never
  listed is a total function with the default at the missing keys (\<open>crawl_issues\<close>,
  \<open>canonical_issues\<close>, \<open>inbound_links\<close>); \<open>internal_links\<close>, whose keys are listed,
  is an association list in insertion order. \<open>fetch_log\<close> is the list of the page loads
  of the browser so far.
\<close>

record crawler =
  title_tracking :: "string \<Rightarrow> string list option"
  meta_desc_tracking :: "string \<Rightarrow> string list option"
  content_tracking :: "int \<Rightarrow> string list option"
  crawl_issues :: "string \<Rightarrow> nat"
  canonical_issues :: "string \<Rightarrow> nat"
  internal_links :: "(string \<times> string set) list"
  inbound_links :: "string \<Rightarrow> string set"
  page_depths :: "string \<Rightarrow> nat option"
  orphan_pages :: "string set"
  structured_data :: catalog
  robots_txt_content :: "string option"
  technical_analyzer :: tech
  fetch_log :: "string list"

definition stats_init :: method_stats where
  "stats_init = \<lparr> m_count = 0, m_valid = [], m_invalid = [], m_errors = [] \<rparr>"

definition catalog_init :: catalog where
  "catalog_init = \<lparr> schema_types = (\<lambda>_. []), json_ld = stats_init, microdata = stats_init,
      rdfa = stats_init, total_pages = 0, pages_with_schema = 0, pages_without_schema = [] \<rparr>"

definition crawler_init :: crawler where
  "crawler_init = \<lparr> title_tracking = (\<lambda>_. None), meta_desc_tracking = (\<lambda>_. None),
      content_tracking = (\<lambda>_. None), crawl_issues = (\<lambda>_. 0), canonical_issues = (\<lambda>_. 0),
      internal_links = [], inbound_links = (\<lambda>_. {}), page_depths = (\<lambda>_. None),
      orphan_pages = {}, structured_data = catalog_init, robots_txt_content = None,
      technical_analyzer = tech_init, fetch_log = [] \<rparr>"

definition bump_issue :: "string \<Rightarrow> crawler \<Rightarrow> crawler" where
  "bump_issue k st = st\<lparr> crawl_issues := (crawl_issues st)(k := crawl_issues st k + 1) \<rparr>"

definition bump_canonical :: "string \<Rightarrow> crawler \<Rightarrow> crawler" where
  "bump_canonical k st = st\<lparr> canonical_issues := (canonical_issues st)(k := canonical_issues st k + 1) \<rparr>"

subsection \<open>Strings\<close>

text \<open>
  A \<open>char\<close> of a page text stands for the Unicode code point of the same number, so a
  string here is a Python string of code points below 256. The whitespace that
  \<^verbatim>\<open>str.strip()\<close> removes is, among these code points, the ASCII whitespace 9 to 13,
  the separators 28 to 31, the space 32, NEL (U+0085) and the no-break space (U+00A0).
\<close>

definition is_space :: "char \<Rightarrow> bool" where
  "is_space c = ((of_char c :: nat) \<in> {9, 10, 11, 12, 13, 28, 29, 30, 31, 32, 133, 160})"

text \<open>\<^verbatim>\<open>s.strip()\<close>\<close>

definition strip :: "string \<Rightarrow> string" where
  "strip s = rev (dropWhile is_space (rev (dropWhile is_space s)))"

text \<open>
  \<^verbatim>\<open>s.lower()\<close>: among the code points below 256 the capital letters are A to Z and
  U+00C0 to U+00DE without the multiplication sign U+00D7; each has its small letter 32
  places on.
\<close>

definition lower_char :: "char \<Rightarrow> char" where
  "lower_char c =
     (if (65 \<le> (of_char c :: nat) \<and> (of_char c :: nat) \<le> 90)
         \<or> (192 \<le> (of_char c :: nat) \<and> (of_char c :: nat) \<le> 222 \<and> (of_char c :: nat) \<noteq> 215)
      then char_of (of_char c + 32 :: nat)
      else c)"

definition lower :: "string \<Rightarrow> string" where
  "lower s = map lower_char s"

definition startswith :: "string \<Rightarrow> string \<Rightarrow> bool" where
  "startswith s pre = (take (length pre) s = pre)"

definition endswith :: "string \<Rightarrow> string \<Rightarrow> bool" where
  "endswith s suf = (length suf \<le> length s \<and> drop (length s - length suf) s = suf)"

text \<open>\<^verbatim>\<open>s.split('/')[-1]\<close>\<close>

definition last_segment :: "string \<Rightarrow> string" where
  "last_segment s = rev (takeWhile (\<lambda>c. c \<noteq> CHR ''/'') (rev s))"

text \<open>\<^verbatim>\<open>s.split('\n')\<close>\<close>

fun split_lines :: "string \<Rightarrow> string list" where
  "split_lines [] = [[]]"
| "split_lines (c # cs) =
     (if c = CHR 0x0A then [] # split_lines cs
      else (case split_lines cs of l # ls \<Rightarrow> (c # l) # ls | [] \<Rightarrow> [[c]]))"

subsection \<open>analyze_structured_data\<close>

text \<open>
  The dictionary that \<^verbatim>\<open>analyze_structured_data\<close> builds and returns; the type names are
  kept as the JSON values the code appends.
\<close>

record findings =
  f_schema_types :: "json list"
  implementation_method :: "string option"
  validation_status :: string
  schema_content :: "json option"
  f_errors :: "string list"

definition findings_init :: findings where
  "findings_init = \<lparr> f_schema_types = [], implementation_method = None,
      validation_status = ''valid'', schema_content = None, f_errors = [] \<rparr>"

text \<open>
  \<^verbatim>\<open>x.get("@type", "")\<close>: only a dictionary has \<^verbatim>\<open>get\<close>, any other value raises
  AttributeError. In a dictionary with a repeated key the last entry counts.
\<close>

definition get_type :: "json \<Rightarrow> error + json" where
  "get_type v =
     (case v of
        JObject kvs \<Rightarrow>
          (case map_of (rev kvs) ''@type'' of None \<Rightarrow> Inr (JString []) | Some t \<Rightarrow> Inr t)
      | _ \<Rightarrow> Inl (AttributeError ''object has no attribute get''))"

text \<open>
  \<^verbatim>\<open>t in self.structured_data["schema_types"]\<close> and the two branches after it: a type name
  that is a key is filed under its own key, anything else hashable under "other"; a list or
  a dictionary is unhashable and raises TypeError.
\<close>

definition file_type :: "json \<Rightarrow> string \<Rightarrow> catalog \<Rightarrow> error + catalog" where
  "file_type t url cat =
     (case t of
        JObject _ \<Rightarrow> Inl (TypeError ''unhashable type: dict'')
      | JArray _ \<Rightarrow> Inl (TypeError ''unhashable type: list'')
      | JString s \<Rightarrow>
          (let k = (if s \<in> set known_types then s else ''other'')
           in Inr (cat\<lparr> schema_types := (schema_types cat)(k := schema_types cat k @ [url]) \<rparr>))
      | _ \<Rightarrow> Inr (cat\<lparr> schema_types :=
                 (schema_types cat)(''other'' := schema_types cat ''other'' @ [url]) \<rparr>))"

text \<open>\<^verbatim>\<open>for item in schema\<close>, the branch for a list of schemas.\<close>

fun array_loop :: "json list \<Rightarrow> string \<Rightarrow> findings \<Rightarrow> catalog \<Rightarrow> error option \<times> findings \<times> catalog" where
  "array_loop [] url f cat = (None, f, cat)"
| "array_loop (item # items) url f cat =
     (case get_type item of
        Inl e \<Rightarrow> (Some e, f, cat)
      | Inr item_type \<Rightarrow>
          (case file_type item_type url cat of
             Inl e \<Rightarrow> (Some e, f, cat)
           | Inr cat' \<Rightarrow>
               array_loop items url (f\<lparr> f_schema_types := f_schema_types f @ [item_type] \<rparr>) cat'))"

text \<open>
  The body of the \<^verbatim>\<open>try\<close> for one parsed script. The type is read with
  \<^verbatim>\<open>schema.get\<close> before the test \<^verbatim>\<open>isinstance(schema, list)\<close>.
\<close>

definition classify_schema :: "json \<Rightarrow> string \<Rightarrow> findings \<Rightarrow> catalog \<Rightarrow> error option \<times> findings \<times> catalog" where
  "classify_schema schema url f cat =
     (case get_type schema of
        Inl e \<Rightarrow> (Some e, f, cat)
      | Inr schema_type \<Rightarrow>
          (case (case schema of
                   JArray items \<Rightarrow> array_loop items url f cat
                 | _ \<Rightarrow>
                   (case file_type schema_type url cat of
                      Inl e \<Rightarrow> (Some e, f, cat)
                    | Inr cat' \<Rightarrow>
                        (None, f\<lparr> f_schema_types := f_schema_types f @ [schema_type] \<rparr>, cat')))
           of
             (Some e, f', cat') \<Rightarrow> (Some e, f', cat')
           | (None, f', cat') \<Rightarrow>
               (None, f'\<lparr> schema_content := Some schema \<rparr>,
                cat'\<lparr> json_ld := (json_ld cat')\<lparr> m_valid := m_valid (json_ld cat') @ [url] \<rparr> \<rparr>)))"

text \<open>
  \<^verbatim>\<open>for script in json_ld_scripts\<close>: JSONDecodeError is caught and recorded, any other
  exception ends the loop and leaves the function.
\<close>

fun json_ld_loop :: "ld_script list \<Rightarrow> string \<Rightarrow> findings \<Rightarrow> catalog \<Rightarrow> error option \<times> findings \<times> catalog" where
  "json_ld_loop [] url f cat = (None, f, cat)"
| "json_ld_loop (script # scripts) url f cat =
     (case script of
        NoString \<Rightarrow> (Some (TypeError ''the JSON object must be str, bytes or bytearray''), f, cat)
      | Malformed msg \<Rightarrow>
          json_ld_loop scripts url
            (f\<lparr> validation_status := ''invalid'',
               f_errors := f_errors f @ [''Invalid JSON-LD: '' @ msg] \<rparr>)
            (cat\<lparr> json_ld := (json_ld cat)\<lparr> m_invalid := m_invalid (json_ld cat) @ [url],
                                              m_errors := m_errors (json_ld cat) @ [msg] \<rparr> \<rparr>)
      | Json schema \<Rightarrow>
          (case classify_schema schema url f cat of
             (Some e, f', cat') \<Rightarrow> (Some e, f', cat')
           | (None, f', cat') \<Rightarrow> json_ld_loop scripts url f' cat'))"

text \<open>
  The loops over the microdata and the RDFa elements; nothing in their \<^verbatim>\<open>try\<close> blocks
  raises on a string attribute. \<open>upd\<close> stores the statistics of the method.
\<close>

fun attr_loop :: "(method_stats \<Rightarrow> method_stats) \<Rightarrow> (catalog \<Rightarrow> method_stats) \<Rightarrow>
    (method_stats \<Rightarrow> catalog \<Rightarrow> catalog) \<Rightarrow> string list \<Rightarrow> string \<Rightarrow> findings \<Rightarrow> catalog \<Rightarrow>
    findings \<times> catalog" where
  "attr_loop g sel upd [] url f cat = (f, cat)"
| "attr_loop g sel upd (a # as) url f cat =
     (let schema_type = last_segment a;
          k = (if schema_type \<in> set known_types then schema_type else ''other'');
          cat1 = cat\<lparr> schema_types := (schema_types cat)(k := schema_types cat k @ [url]) \<rparr>;
          cat2 = upd (g (sel cat1)) cat1
      in attr_loop g sel upd as url
           (f\<lparr> f_schema_types := f_schema_types f @ [JString schema_type] \<rparr>) cat2)"

definition add_valid :: "string \<Rightarrow> method_stats \<Rightarrow> method_stats" where
  "add_valid url m = m\<lparr> m_valid := m_valid m @ [url] \<rparr>"

definition count_method :: "method_stats \<Rightarrow> method_stats" where
  "count_method m = m\<lparr> m_count := m_count m + 1 \<rparr>"

text \<open>\<^verbatim>\<open># Update page coverage\<close>\<close>

definition page_coverage :: "string \<Rightarrow> findings \<Rightarrow> catalog \<Rightarrow> catalog" where
  "page_coverage url f cat =
     (let cat1 = cat\<lparr> total_pages := total_pages cat + 1 \<rparr>
      in if f_schema_types f \<noteq> [] then cat1\<lparr> pages_with_schema := pages_with_schema cat1 + 1 \<rparr>
         else cat1\<lparr> pages_without_schema := pages_without_schema cat1 @ [url] \<rparr>)"

definition analyze_catalog :: "page \<Rightarrow> string \<Rightarrow> catalog \<Rightarrow> (error + findings) \<times> catalog" where
  "analyze_catalog pg url cat =
     (let f0 = findings_init;
          (eo, f1, cat1) =
            (if p_json_ld pg \<noteq> [] then
               json_ld_loop (p_json_ld pg) url (f0\<lparr> implementation_method := Some ''json_ld'' \<rparr>)
                 (cat\<lparr> json_ld := count_method (json_ld cat) \<rparr>)
             else (None, f0, cat))
      in case eo of
           Some e \<Rightarrow> (Inl e, cat1)
         | None \<Rightarrow>
             (let (f2, cat2) =
                    (if implementation_method f1 = None \<and> p_microdata pg \<noteq> [] then
                       attr_loop (add_valid url) microdata (\<lambda>m c. c\<lparr> microdata := m \<rparr>)
                         (p_microdata pg) url (f1\<lparr> implementation_method := Some ''microdata'' \<rparr>)
                         (cat1\<lparr> microdata := count_method (microdata cat1) \<rparr>)
                     else (f1, cat1));
                  (f3, cat3) =
                    (if implementation_method f2 = None \<and> p_rdfa pg \<noteq> [] then
                       attr_loop (add_valid url) rdfa (\<lambda>m c. c\<lparr> rdfa := m \<rparr>)
                         (p_rdfa pg) url (f2\<lparr> implementation_method := Some ''rdfa'' \<rparr>)
                         (cat2\<lparr> rdfa := count_method (rdfa cat2) \<rparr>)
                     else (f2, cat2))
              in (Inr f3, page_coverage url f3 cat3)))"

text \<open>
  \<^verbatim>\<open>analyze_structured_data(soup, url)\<close>: it touches only \<^verbatim>\<open>self.structured_data\<close>.
  \<open>Inl\<close> is the exception that leaves the method.
\<close>

definition analyze_structured_data :: "page \<Rightarrow> string \<Rightarrow> crawler \<Rightarrow> (error + findings) \<times> crawler" where
  "analyze_structured_data pg url st =
     (case analyze_catalog pg url (structured_data st) of
        (r, cat) \<Rightarrow> (r, st\<lparr> structured_data := cat \<rparr>))"

subsection \<open>extract_metadata\<close>

record metadata =
  title_tag :: string
  meta_description :: string
  h_tags :: "nat \<Rightarrow> string list"
  images :: "(string \<times> string) list"
  md_structured_data :: findings
  flesch_kincaid_grade :: "rat option"

text \<open>
  The tracker update shared by the three duplicate checks: a value seen before counts one
  issue and gets the URL appended, a new value starts its own list.
\<close>

definition track_title :: "string \<Rightarrow> string \<Rightarrow> crawler \<Rightarrow> crawler" where
  "track_title title url st =
     (case title_tracking st title of
        Some urls \<Rightarrow>
          (bump_issue ''duplicate_titles'' st)
            \<lparr> title_tracking := (title_tracking st)(title := Some (urls @ [url])) \<rparr>
      | None \<Rightarrow> st\<lparr> title_tracking := (title_tracking st)(title := Some [url]) \<rparr>)"

definition track_description :: "string \<Rightarrow> string \<Rightarrow> crawler \<Rightarrow> crawler" where
  "track_description desc url st =
     (case meta_desc_tracking st desc of
        Some urls \<Rightarrow>
          (bump_issue ''duplicate_meta_descriptions'' st)
            \<lparr> meta_desc_tracking := (meta_desc_tracking st)(desc := Some (urls @ [url])) \<rparr>
      | None \<Rightarrow> st\<lparr> meta_desc_tracking := (meta_desc_tracking st)(desc := Some [url]) \<rparr>)"

definition track_content :: "int \<Rightarrow> string \<Rightarrow> crawler \<Rightarrow> crawler" where
  "track_content h url st =
     (case content_tracking st h of
        Some urls \<Rightarrow>
          (bump_issue ''duplicate_content'' st)
            \<lparr> content_tracking := (content_tracking st)(h := Some (urls @ [url])) \<rparr>
      | None \<Rightarrow> st\<lparr> content_tracking := (content_tracking st)(h := Some [url]) \<rparr>)"

text \<open>\<^verbatim>\<open># Get title\<close>: \<^verbatim>\<open>soup.title.string.strip()\<close> raises when the string is \<open>None\<close>.\<close>

definition title_block :: "page \<Rightarrow> string \<Rightarrow> crawler \<Rightarrow> (error + string) \<times> crawler" where
  "title_block pg url st =
     (case p_title pg of
        None \<Rightarrow> (Inr [], bump_issue ''urls_missing_title_tag'' st)
      | Some None \<Rightarrow> (Inl (AttributeError ''NoneType has no attribute strip''), st)
      | Some (Some s) \<Rightarrow> (Inr (strip s), track_title (strip s) url st))"

definition description_block :: "page \<Rightarrow> string \<Rightarrow> crawler \<Rightarrow> string \<times> crawler" where
  "description_block pg url st =
     (case p_meta_description pg of
        Some c \<Rightarrow>
          (if c \<noteq> [] then (strip c, track_description (strip c) url st)
           else ([], bump_issue ''urls_missing_meta_description'' st))
      | None \<Rightarrow> ([], bump_issue ''urls_missing_meta_description'' st))"

definition headings_block :: "page \<Rightarrow> crawler \<Rightarrow> (nat \<Rightarrow> string list) \<times> crawler" where
  "headings_block pg st =
     ((\<lambda>i. if 1 \<le> i \<and> i < 7 then p_headings pg i else []),
      (if p_headings pg 1 = [] then bump_issue ''urls_missing_h1'' st else st))"

fun images_loop :: "(string \<times> string) list \<Rightarrow> crawler \<Rightarrow> crawler" where
  "images_loop [] st = st"
| "images_loop ((src, alt) # imgs) st =
     images_loop imgs (if alt = [] then bump_issue ''images_missing_alt_text'' st else st)"

definition content_block :: "net \<Rightarrow> page \<Rightarrow> string \<Rightarrow> crawler \<Rightarrow> rat option \<times> crawler" where
  "content_block env pg url st =
     (case p_main_content pg of
        None \<Rightarrow> (None, st)
      | Some content_text \<Rightarrow>
          (fk_grade env content_text, track_content (content_hash env content_text) url st))"

text \<open>
  \<^verbatim>\<open>extract_metadata(soup, url)\<close>. The dictionary literal at its start calls
  \<^verbatim>\<open>analyze_structured_data\<close> first.
\<close>

definition extract_metadata :: "net \<Rightarrow> page \<Rightarrow> string \<Rightarrow> crawler \<Rightarrow> (error + metadata) \<times> crawler" where
  "extract_metadata env pg url st =
     (case analyze_structured_data pg url st of
        (Inl e, st1) \<Rightarrow> (Inl e, st1)
      | (Inr sd, st1) \<Rightarrow>
          (case title_block pg url st1 of
             (Inl e, st2) \<Rightarrow> (Inl e, st2)
           | (Inr title, st2) \<Rightarrow>
               (let (desc, st3) = description_block pg url st2;
                    (hs, st4) = headings_block pg st3;
                    st5 = images_loop (p_images pg) st4;
                    (grade, st6) = content_block env pg url st5
                in (Inr \<lparr> title_tag = title, meta_description = desc, h_tags = hs,
                          images = p_images pg, md_structured_data = sd,
                          flesch_kincaid_grade = grade \<rparr>, st6))))"

subsection \<open>check_indexability\<close>

text \<open>
  \<^verbatim>\<open>is_allowed_by_robots(url)\<close>: a line that starts with "disallow:" (in any case)
  forbids the URL when the text after the first colon, stripped, is not empty and is a suffix
  of the URL.
\<close>

definition disallow_path :: "string \<Rightarrow> string" where
  "disallow_path line = strip (drop 1 (dropWhile (\<lambda>c. c \<noteq> CHR '':'') line))"

definition is_allowed_by_robots :: "crawler \<Rightarrow> string \<Rightarrow> bool" where
  "is_allowed_by_robots st url =
     (case robots_txt_content st of
        None \<Rightarrow> True
      | Some content \<Rightarrow>
          (if content = [] then True
           else \<not> (\<exists>line \<in> set (split_lines content).
                     startswith (lower line) ''disallow:'' \<and> disallow_path line \<noteq> []
                     \<and> endswith url (disallow_path line))))"

record indexability =
  robots_txt_allowed :: bool
  meta_robots :: string
  canonical :: string
  canonical_self_referencing :: bool
  noindex_reason :: "string option"
  idx_canonical_issues :: "string list"

text \<open>\<^verbatim>\<open># Check meta robots\<close>\<close>

definition robots_block :: "page \<Rightarrow> indexability \<Rightarrow> crawler \<Rightarrow> indexability \<times> crawler" where
  "robots_block pg idx st =
     (case p_meta_robots pg of
        None \<Rightarrow> (idx, st)
      | Some c \<Rightarrow>
          (if c = [] then (idx, st)
           else
             (let idx1 = idx\<lparr> meta_robots := lower c \<rparr>
              in if contains ''noindex'' (meta_robots idx1) then
                   (idx1\<lparr> noindex_reason := Some ''meta_robots_noindex'' \<rparr>,
                    bump_issue ''non_indexable_urls'' st)
                 else (idx1, st))))"

text \<open>
  \<^verbatim>\<open># Check canonical\<close>. An issue is appended to the page's list and counted in
  \<^verbatim>\<open>self.canonical_issues\<close> in the same step.
\<close>

definition add_canonical_issue :: "string \<Rightarrow> indexability \<times> crawler \<Rightarrow> indexability \<times> crawler" where
  "add_canonical_issue k = (\<lambda>(idx, st).
     (idx\<lparr> idx_canonical_issues := idx_canonical_issues idx @ [k] \<rparr>, bump_canonical k st))"

definition canonical_block :: "net \<Rightarrow> page \<Rightarrow> string \<Rightarrow> indexability \<Rightarrow> crawler \<Rightarrow> indexability \<times> crawler" where
  "canonical_block env pg url idx st =
     (if (case p_canonical pg of None \<Rightarrow> False | Some h \<Rightarrow> h \<noteq> []) then
        (let canonical_url = the (p_canonical pg);
             s0 = (idx\<lparr> canonical := canonical_url \<rparr>, st);
             s1 = (if \<not> (startswith canonical_url ''http://'' \<or> startswith canonical_url ''https://'')
                   then add_canonical_issue ''relative_url'' s0 else s0);
             canonical_domain = netloc env canonical_url;
             current_domain = netloc env url;
             s2 = (if canonical_domain \<noteq> [] \<and> canonical_domain \<noteq> current_domain
                   then add_canonical_issue ''points_to_different_domain'' s1 else s1)
         in if canonical_url \<noteq> url then
              (let s3 = (\<lambda>(i, c). (i\<lparr> canonical_self_referencing := False \<rparr>, c)) s2
               in if idx_canonical_issues (fst s3) = []
                  then add_canonical_issue ''points_to_different_url'' s3 else s3)
            else s2)
      else add_canonical_issue ''missing_canonical'' (idx, st))"

definition check_indexability :: "net \<Rightarrow> page \<Rightarrow> string \<Rightarrow> crawler \<Rightarrow> indexability \<times> crawler" where
  "check_indexability env pg url st =
     (let idx0 = \<lparr> robots_txt_allowed = is_allowed_by_robots st url,
                   meta_robots = ''index,follow'', canonical = url,
                   canonical_self_referencing = True, noindex_reason = None,
                   idx_canonical_issues = [] \<rparr>;
          (idx1, st1) = robots_block pg idx0 st
      in canonical_block env pg url idx1 st1)"

subsection \<open>Concrete pages\<close>

text \<open>
  A page without any of the elements read, and pages that differ from it in one element:
  a JSON-LD script holding an array, a canonical link, a title. \<open>after_home\<close> is the
  crawler after the metadata of the first page titled "Home" was extracted;
  \<open>home_array_page\<close> is a second page titled "Home" that also has a JSON-LD script with an
  array of two schemas, and \<open>home_array_run\<close> the extraction of its metadata after that.
\<close>

definition blank_page :: page where
  "blank_page = \<lparr> p_title = None, p_meta_description = None, p_headings = (\<lambda>_. []),
      p_images = [], p_main_content = None, p_meta_robots = None, p_canonical = None,
      p_json_ld = [], p_microdata = [], p_rdfa = [], p_links = [] \<rparr>"

definition array_page :: page where
  "array_page = blank_page \<lparr> p_json_ld := [Json (JArray [JString ''Organization'', JString ''Article''])] \<rparr>"

definition object_array_page :: page where
  "object_array_page = blank_page \<lparr> p_json_ld :=
     [Json (JArray [JObject [(''@type'', JString ''Organization'')],
                    JObject [(''@type'', JString ''Article'')]])] \<rparr>"

definition array_run :: "(error + findings) \<times> crawler" where
  "array_run = analyze_structured_data array_page ''https://example.com/A'' crawler_init"

definition object_array_run :: "(error + findings) \<times> crawler" where
  "object_array_run = analyze_structured_data object_array_page ''https://example.com/A'' crawler_init"

definition page_b :: page where
  "page_b = blank_page \<lparr> p_canonical := Some ''/other-page'' \<rparr>"

definition page_c :: page where
  "page_c = blank_page \<lparr> p_canonical := Some ''https://example.com/other'' \<rparr>"

definition home_page :: page where
  "home_page = blank_page \<lparr> p_title := Some (Some ''Home'') \<rparr>"

definition home_copy :: page where
  "home_copy = blank_page \<lparr> p_title := Some (Some ''Home '') \<rparr>"

definition after_home :: crawler where
  "after_home = snd (extract_metadata quiet_net home_page ''https://example.com/'' crawler_init)"

definition home_array_page :: page where
  "home_array_page = home_page \<lparr> p_json_ld :=
     [Json (JArray [JObject [(''@type'', JString ''Organization'')],
                    JObject [(''@type'', JString ''Article'')]])] \<rparr>"

definition home_array_run :: "(error + metadata) \<times> crawler" where
  "home_array_run = extract_metadata quiet_net home_array_page ''https://example.com/index.html'' after_home"

subsection \<open>The link graph\<close>

text \<open>
  \<^verbatim>\<open>d[k] = v\<close> on a dictionary kept in insertion order, and the value of
  \<^verbatim>\<open>self.internal_links[url]\<close>, which is the empty set for a key that was missing
  (reading the \<^verbatim>\<open>defaultdict\<close> at a missing key creates the key).
\<close>

fun dict_set :: "'k \<Rightarrow> 'v \<Rightarrow> ('k \<times> 'v) list \<Rightarrow> ('k \<times> 'v) list" where
  "dict_set k v [] = [(k, v)]"
| "dict_set k v ((k', v') # kvs) =
     (if k = k' then (k, v) # kvs else (k', v') # dict_set k v kvs)"

definition links_of :: "crawler \<Rightarrow> string \<Rightarrow> string set" where
  "links_of st url = (case map_of (internal_links st) url of None \<Rightarrow> {} | Some s \<Rightarrow> s)"

definition touch_links :: "string \<Rightarrow> crawler \<Rightarrow> crawler" where
  "touch_links url st = st\<lparr> internal_links := dict_set url (links_of st url) (internal_links st) \<rparr>"

text \<open>
  \<^verbatim>\<open>self.internal_links[url].add(absolute_url)\<close> and
  \<^verbatim>\<open>self.inbound_links[absolute_url].add(url)\<close>
\<close>

definition add_link :: "string \<Rightarrow> string \<Rightarrow> crawler \<Rightarrow> crawler" where
  "add_link url absolute_url st =
     st\<lparr> internal_links := dict_set url (insert absolute_url (links_of st url)) (internal_links st),
         inbound_links := (inbound_links st)(absolute_url := insert url (inbound_links st absolute_url)) \<rparr>"

text \<open>\<^verbatim>\<open># Update page depth if this is a new page\<close>\<close>

definition note_depth :: "string \<Rightarrow> nat \<Rightarrow> crawler \<Rightarrow> crawler" where
  "note_depth absolute_url d st =
     (if page_depths st absolute_url = None
      then st\<lparr> page_depths := (page_depths st)(absolute_url := Some d) \<rparr>
      else st)"

text \<open>\<^verbatim>\<open>get_page_content(url)\<close>: one page load of the browser.\<close>

definition get_page_content :: "net \<Rightarrow> string \<Rightarrow> crawler \<Rightarrow> page option \<times> crawler" where
  "get_page_content env url st =
     (page_source env url (count_list (fetch_log st) url),
      st\<lparr> fetch_log := fetch_log st @ [url] \<rparr>)"

text \<open>
  The test on the scheme of a link, and the test for an internal link; the domain is the
  network location of the page that holds the link.
\<close>

definition skipped_scheme :: "string \<Rightarrow> bool" where
  "skipped_scheme s =
     (s = [] \<or> startswith s ''mailto'' \<or> startswith s ''tel'' \<or> startswith s ''javascript'')"

definition is_internal_link :: "net \<Rightarrow> string \<Rightarrow> string \<Rightarrow> bool" where
  "is_internal_link env domain absolute_url =
     (netloc env absolute_url = domain \<or> netloc env absolute_url = ''www.'' @ domain)"

text \<open>
  \<^verbatim>\<open>for link in links\<close> of \<^verbatim>\<open>analyze_internal_links\<close>, with the recursive call as
  \<open>rec\<close>. A link whose \<^verbatim>\<open>urljoin\<close> raises is skipped by the inner \<^verbatim>\<open>except\<close>. The
  result is \<open>None\<close> when the recursion is deeper than the fuel.
\<close>

fun links_loop :: "(string \<Rightarrow> nat \<Rightarrow> string set \<Rightarrow> crawler \<Rightarrow> (string set \<times> crawler) option) \<Rightarrow>
    net \<Rightarrow> string \<Rightarrow> string \<Rightarrow> nat \<Rightarrow> string list \<Rightarrow> string set \<Rightarrow> crawler \<Rightarrow>
    (string set \<times> crawler) option" where
  "links_loop rec env url domain depth [] visited st = Some (visited, st)"
| "links_loop rec env url domain depth (href # hrefs) visited st =
     (case urljoin env url href of
        None \<Rightarrow> links_loop rec env url domain depth hrefs visited st
      | Some absolute_url \<Rightarrow>
          (if skipped_scheme (url_scheme env absolute_url) then
             links_loop rec env url domain depth hrefs visited st
           else if is_internal_link env domain absolute_url then
             (let st2 = note_depth absolute_url (depth + 1) (add_link url absolute_url st)
              in if absolute_url \<notin> visited then
                   (case rec absolute_url (depth + 1) visited st2 of
                      None \<Rightarrow> None
                    | Some (visited', st3) \<Rightarrow>
                        links_loop rec env url domain depth hrefs visited' st3)
                 else links_loop rec env url domain depth hrefs visited st2)
           else links_loop rec env url domain depth hrefs visited st))"

text \<open>\<^verbatim>\<open>analyze_internal_links(url, depth, visited)\<close> with a visited set given.\<close>

primrec analyze_links :: "nat \<Rightarrow> net \<Rightarrow> string \<Rightarrow> nat \<Rightarrow> string set \<Rightarrow> crawler \<Rightarrow>
    (string set \<times> crawler) option" where
  "analyze_links 0 env url depth visited st = None"
| "analyze_links (Suc n) env url depth visited st =
     (if url \<in> visited then Some (visited, st)
      else
        (case get_page_content env url st of
           (None, st1) \<Rightarrow> Some (insert url visited, st1)
         | (Some pg, st1) \<Rightarrow>
             links_loop (analyze_links n env) env url (netloc env url) depth (p_links pg)
               (insert url visited) st1))"

text \<open>
  \<^verbatim>\<open>analyze_internal_links(url)\<close>, the call without a visited set: the visited set starts
  empty and the depth of \<open>url\<close> is set to 0.
\<close>

definition analyze_internal_links :: "nat \<Rightarrow> net \<Rightarrow> string \<Rightarrow> crawler \<Rightarrow> (string set \<times> crawler) option" where
  "analyze_internal_links n env url st =
     analyze_links n env url 0 {} (st\<lparr> page_depths := (page_depths st)(url := Some 0) \<rparr>)"

text \<open>
  \<^verbatim>\<open>identify_orphan_pages()\<close>: the loop over the keys of \<^verbatim>\<open>self.internal_links\<close>.
  Pages are only ever added to \<^verbatim>\<open>self.orphan_pages\<close>.
\<close>

definition identify_orphan_pages :: "crawler \<Rightarrow> crawler" where
  "identify_orphan_pages st =
     fold (\<lambda>page s. if inbound_links s page = {}
                     then s\<lparr> orphan_pages := insert page (orphan_pages s) \<rparr> else s)
          (map fst (internal_links st)) st"

record page_linking =
  outbound_links :: nat
  inbound_count :: nat
  link_depth :: int

definition get_page_linking_metrics :: "string \<Rightarrow> crawler \<Rightarrow> page_linking \<times> crawler" where
  "get_page_linking_metrics url st =
     (\<lparr> outbound_links = card (links_of st url),
        inbound_count = card (inbound_links st url),
        link_depth = (case page_depths st url of None \<Rightarrow> - 1 | Some d \<Rightarrow> int d) \<rparr>,
      touch_links url st)"

record linking_metrics =
  lm_orphan_pages :: "string set"
  depth_distribution :: "nat \<Rightarrow> nat"
  lm_total_pages :: nat
  total_internal_links :: nat

definition get_linking_metrics :: "crawler \<Rightarrow> linking_metrics \<times> crawler" where
  "get_linking_metrics st =
     (let st1 = identify_orphan_pages st
      in (\<lparr> lm_orphan_pages = orphan_pages st1,
            depth_distribution =
              (\<lambda>d. length (filter (\<lambda>u. page_depths st1 u = Some d) (map fst (internal_links st1)))),
            lm_total_pages = length (internal_links st1),
            total_internal_links = sum_list (map (\<lambda>(u, ls). card ls) (internal_links st1)) \<rparr>,
          st1))"

subsection \<open>crawl_site\<close>

text \<open>
  The dictionary that \<^verbatim>\<open>crawl_site\<close> returns, without the timestamp and the summaries of
  the issue counters: the analysed URL, the domain, \<^verbatim>\<open>page_info\<close> and the linking metrics
  when the page was analysed, and the results of the linked pages.
\<close>

record page_info =
  pi_indexability :: indexability
  pi_metadata :: metadata
  pi_linking_metrics :: page_linking

datatype crawl_result =
  CrawlResult (analyzed_url: string) (result_domain: string) (page_info: "page_info option")
    (linking: "linking_metrics option") (linked_pages: "crawl_result list")

text \<open>\<^verbatim>\<open>get_robots_txt(domain)\<close>: fetched once, empty when the answer is not 200.\<close>

definition get_robots_txt :: "net \<Rightarrow> string \<Rightarrow> crawler \<Rightarrow> crawler" where
  "get_robots_txt env base_url st =
     (case robots_txt_content st of
        Some _ \<Rightarrow> st
      | None \<Rightarrow>
          st\<lparr> robots_txt_content :=
                Some (case robots_txt env (base_url @ ''/robots.txt'') of
                        Some text \<Rightarrow> text | None \<Rightarrow> []) \<rparr>)"

text \<open>
  \<^verbatim>\<open># Process all links on the page\<close>: the loop collects the internal links that are not
  in the visited set of the crawl, here in the order of their first occurrence (the order in
  which Python iterates over the set is not specified), and probes every link; an exception
  of \<^verbatim>\<open>check_url\<close> is caught by the inner \<^verbatim>\<open>except\<close>.
\<close>

fun page_links_loop :: "net \<Rightarrow> string \<Rightarrow> string \<Rightarrow> string list \<Rightarrow> string set \<Rightarrow> string list \<Rightarrow> tech \<Rightarrow>
    string list \<times> tech" where
  "page_links_loop env url domain [] visited found t = (found, t)"
| "page_links_loop env url domain (href # hrefs) visited found t =
     (case urljoin env url href of
        None \<Rightarrow> page_links_loop env url domain hrefs visited found t
      | Some absolute_url \<Rightarrow>
          (if skipped_scheme (url_scheme env absolute_url) then
             page_links_loop env url domain hrefs visited found t
           else
             (let is_internal = is_internal_link env domain absolute_url;
                  found1 = (if is_internal \<and> absolute_url \<notin> visited \<and> absolute_url \<notin> set found
                            then found @ [absolute_url] else found)
              in page_links_loop env url domain hrefs visited found1
                   (snd (check_url env absolute_url is_internal t)))))"

text \<open>
  The \<^verbatim>\<open>try\<close> block of \<^verbatim>\<open>crawl_site\<close> up to the recursion: \<open>Stopped\<close> is a
  \<^verbatim>\<open>return results\<close> before the page was analysed (no content, or an exception caught by
  the outer \<^verbatim>\<open>except\<close>), \<open>Analyzed\<close> carries the filled result and the internal links
  found on the page.
\<close>

datatype page_outcome = Stopped crawl_result | Analyzed crawl_result "string list"

definition crawl_page :: "nat \<Rightarrow> net \<Rightarrow> string \<Rightarrow> string set \<Rightarrow> crawler \<Rightarrow> (page_outcome \<times> crawler) option" where
  "crawl_page n env url visited st =
     (let domain = netloc env url;
          base_url = url_scheme env url @ ''://'' @ domain;
          results = CrawlResult url base_url None None [];
          st1 = get_robots_txt env base_url st
      in case validate_sitemap (sitemap_fuel env) env domain {} (technical_analyzer st1) of
           None \<Rightarrow> None
         | Some (Some e, V, t) \<Rightarrow> Some (Stopped results, st1\<lparr> technical_analyzer := t \<rparr>)
         | Some (None, V, t) \<Rightarrow>
             (case get_page_content env url (st1\<lparr> technical_analyzer := t \<rparr>) of
                (None, st3) \<Rightarrow> Some (Stopped results, st3)
              | (Some pg, st3) \<Rightarrow>
                  (case extract_metadata env pg url st3 of
                     (Inl e, st4) \<Rightarrow> Some (Stopped results, st4)
                   | (Inr md, st4) \<Rightarrow>
                       (case check_indexability env pg url st4 of
                          (idx, st5) \<Rightarrow>
                            (case analyze_internal_links n env url st5 of
                               None \<Rightarrow> None
                             | Some (V', st6) \<Rightarrow>
                                 (case page_links_loop env url domain (p_links pg) visited []
                                         (technical_analyzer st6) of
                                    (found, t') \<Rightarrow>
                                      (case get_page_linking_metrics url
                                              (st6\<lparr> technical_analyzer := t' \<rparr>) of
                                         (plm, st8) \<Rightarrow>
                                           (case get_linking_metrics st8 of
                                              (lm, st9) \<Rightarrow>
                                                Some (Analyzed
                                                  (CrawlResult url base_url
                                                     (Some \<lparr> pi_indexability = idx, pi_metadata = md,
                                                              pi_linking_metrics = plm \<rparr>)
                                                     (Some lm) []) found, st9)))))))))"

text \<open>
  \<^verbatim>\<open>for linked_url in internal_links\<close>, with the recursive call as \<open>rec\<close>; a call that
  returns \<open>None\<close> (the URL was visited already) adds nothing to \<^verbatim>\<open>linked_pages\<close>.
\<close>

fun crawl_loop :: "(string \<Rightarrow> string set \<Rightarrow> crawler \<Rightarrow> (crawl_result option \<times> string set \<times> crawler) option) \<Rightarrow>
    string list \<Rightarrow> string set \<Rightarrow> crawler \<Rightarrow> (crawl_result list \<times> string set \<times> crawler) option" where
  "crawl_loop rec [] visited st = Some ([], visited, st)"
| "crawl_loop rec (u # us) visited st =
     (case rec u visited st of
        None \<Rightarrow> None
      | Some (r, visited1, st1) \<Rightarrow>
          (case crawl_loop rec us visited1 st1 of
             None \<Rightarrow> None
           | Some (rs, visited2, st2) \<Rightarrow>
               Some ((case r of None \<Rightarrow> [] | Some x \<Rightarrow> [x]) @ rs, visited2, st2)))"

definition with_linked_pages :: "crawl_result list \<Rightarrow> crawl_result \<Rightarrow> crawl_result" where
  "with_linked_pages rs r =
     CrawlResult (analyzed_url r) (result_domain r) (page_info r) (linking r) (linked_pages r @ rs)"

text \<open>
  \<^verbatim>\<open>crawl_site(url, depth, visited)\<close>. The first component of the result is what the call
  returns (\<open>None\<close> for a URL visited before); the whole is \<open>None\<close> when the fuel does not
  cover the depth of the link analysis.
\<close>

primrec crawl_site :: "nat \<Rightarrow> net \<Rightarrow> string \<Rightarrow> nat \<Rightarrow> string set \<Rightarrow> crawler \<Rightarrow>
    (crawl_result option \<times> string set \<times> crawler) option" where
  "crawl_site 0 env url depth visited st = None"
| "crawl_site (Suc n) env url depth visited st =
     (if url \<in> visited then Some (None, visited, st)
      else
        (case crawl_page n env url (insert url visited) st of
           None \<Rightarrow> None
         | Some (Stopped results, st1) \<Rightarrow> Some (Some results, insert url visited, st1)
         | Some (Analyzed results found, st1) \<Rightarrow>
             (if depth = 0 then
                (case crawl_loop (\<lambda>u. crawl_site n env u (depth + 1)) found (insert url visited) st1 of
                   None \<Rightarrow> None
                 | Some (rs, visited', st') \<Rightarrow>
                     Some (Some (with_linked_pages rs results), visited', st'))
              else Some (Some results, insert url visited, st1))))"

subsection \<open>Concrete sites\<close>

text \<open>
  \<open>chain_net\<close>: the seed links to /a, /a to /b, /b to /c, and every page loads every time.
  \<open>flaky_site\<close>: the seed links to /a and /a links back to the seed, but the first load of
  /a fails.
\<close>

definition url_seed :: string where "url_seed = ''https://example.com/''"

definition url_a :: string where "url_a = ''https://example.com/a''"

definition url_b :: string where "url_b = ''https://example.com/b''"

definition url_c :: string where "url_c = ''https://example.com/c''"

definition link_page :: "string list \<Rightarrow> page" where
  "link_page hrefs = blank_page \<lparr> p_links := hrefs \<rparr>"

definition chain_net :: net where
  "chain_net = quiet_net \<lparr> page_source := (\<lambda>u k.
      if u = url_seed then Some (link_page [url_a])
      else if u = url_a then Some (link_page [url_b])
      else if u = url_b then Some (link_page [url_c])
      else if u = url_c then Some (link_page [])
      else None) \<rparr>"

definition flaky_site :: net where
  "flaky_site = quiet_net \<lparr> page_source := (\<lambda>u k.
      if u = url_seed then Some (link_page [url_a])
      else if u = url_a \<and> 0 < k then Some (link_page [url_seed])
      else None) \<rparr>"

definition chain_crawl :: "(crawl_result option \<times> string set \<times> crawler) option" where
  "chain_crawl = crawl_site 6 chain_net url_seed 0 {} crawler_init"

definition flaky_crawl :: "(crawl_result option \<times> string set \<times> crawler) option" where
  "flaky_crawl = crawl_site 4 flaky_site url_seed 0 {} crawler_init"

subsection \<open>The states of one crawl_site call\<close>

text \<open>
  The fields of the crawler that hold the link graph. Metadata extraction, the indexability
  check and the robots.txt request write other fields only.
\<close>

definition graph_view :: "crawler \<Rightarrow> (string \<times> string set) list \<times> (string \<Rightarrow> string set) \<times> (string \<Rightarrow> nat option) \<times> string set \<times> string list" where
  "graph_view st = (internal_links st, inbound_links st, page_depths st, orphan_pages st, fetch_log st)"

text \<open>
  The crawler after \<^verbatim>\<open>get_robots_txt\<close>, \<^verbatim>\<open>validate_sitemap\<close> and the page load of
  \<^verbatim>\<open>crawl_site\<close>.
\<close>

definition after_fetch :: "net \<Rightarrow> string \<Rightarrow> crawler \<Rightarrow> crawler" where
  "after_fetch env url st =
     (let st1 = get_robots_txt env (url_scheme env url @ ''://'' @ netloc env url) st
      in st1\<lparr> technical_analyzer :=
                (case validate_sitemap (sitemap_fuel env) env (netloc env url) {}
                        (technical_analyzer st1) of
                   None \<Rightarrow> technical_analyzer st1
                 | Some (e, V, t) \<Rightarrow> t),
              fetch_log := fetch_log st1 @ [url] \<rparr>)"

text \<open>The crawler on which \<^verbatim>\<open>crawl_site\<close> calls \<^verbatim>\<open>analyze_internal_links(url)\<close>.\<close>

definition pre_links :: "net \<Rightarrow> page \<Rightarrow> string \<Rightarrow> crawler \<Rightarrow> crawler" where
  "pre_links env pg url st =
     snd (check_indexability env pg url (snd (extract_metadata env pg url (after_fetch env url st))))"

text \<open>The crawler after the loop that probes the links of the page.\<close>

definition probed :: "net \<Rightarrow> page \<Rightarrow> string \<Rightarrow> string set \<Rightarrow> crawler \<Rightarrow> crawler" where
  "probed env pg url V st6 =
     st6\<lparr> technical_analyzer :=
            snd (page_links_loop env url (netloc env url) (p_links pg) V [] (technical_analyzer st6)) \<rparr>"

text \<open>
  The crawler after \<^verbatim>\<open>get_page_linking_metrics(url)\<close> and \<^verbatim>\<open>get_linking_metrics()\<close>, that
  is, before the loop over the linked pages.
\<close>

definition post_links :: "net \<Rightarrow> page \<Rightarrow> string \<Rightarrow> string set \<Rightarrow> crawler \<Rightarrow> crawler" where
  "post_links env pg url V st6 = identify_orphan_pages (touch_links url (probed env pg url V st6))"

text \<open>
  The result dictionary of an analysed page before the linked pages are appended, from the
  crawler \<open>st\<close> at the start of the call and the crawler \<open>st6\<close> after the link analysis.
\<close>

definition page_result :: "net \<Rightarrow> page \<Rightarrow> string \<Rightarrow> string set \<Rightarrow> crawler \<Rightarrow> crawler \<Rightarrow> crawl_result" where
  "page_result env pg url V st st6 =
     (case extract_metadata env pg url (after_fetch env url st) of
        (Inl e, st4) \<Rightarrow>
          CrawlResult url (url_scheme env url @ ''://'' @ netloc env url) None None []
      | (Inr md, st4) \<Rightarrow>
          CrawlResult url (url_scheme env url @ ''://'' @ netloc env url)
            (Some \<lparr> pi_indexability = fst (check_indexability env pg url st4),
                    pi_metadata = md,
                    pi_linking_metrics = fst (get_page_linking_metrics url (probed env pg url V st6)) \<rparr>)
            (Some (fst (get_linking_metrics (touch_links url (probed env pg url V st6))))) [])"

text \<open>
  What a run leaves behind: the crawler at the end (the fresh crawler when the fuel did not
  suffice, which the theorems below exclude), and the dictionary that \<^verbatim>\<open>crawl_site\<close>
  returned.
\<close>

definition final_state :: "('a \<times> 'b \<times> crawler) option \<Rightarrow> crawler" where
  "final_state x = (case x of None \<Rightarrow> crawler_init | Some (r, V, st) \<Rightarrow> st)"

definition returned :: "(crawl_result option \<times> 'b \<times> crawler) option \<Rightarrow> crawl_result option" where
  "returned x = (case x of None \<Rightarrow> None | Some (r, V, st) \<Rightarrow> r)"

definition analysis_state :: "('b \<times> crawler) option \<Rightarrow> crawler" where
  "analysis_state x = (case x of None \<Rightarrow> crawler_init | Some (V, st) \<Rightarrow> st)"

text \<open>
  The link analysis of the seed of \<open>chain_net\<close> on a fresh crawler, and the call that
  \<^verbatim>\<open>crawl_site\<close> makes for a linked page: depth 1, the seed already visited.
\<close>

definition chain_analysis :: "(string set \<times> crawler) option" where
  "chain_analysis = analyze_internal_links 5 chain_net url_seed crawler_init"


section \<open>Properties of the TechnicalAnalyzer\<close>

lemma chain_has_loop_distinct: "chain_has_loop c = (\<not> distinct c)"
  unfolding chain_has_loop_def
  by (metis distinct_remdups length_remdups_eq length_remdups_leq nat_less_le remdups_id_iff_distinct)

lemma chain_has_loop_card: "chain_has_loop c = (card (set c) < length c)"
  unfolding chain_has_loop_def by (simp add: length_remdups_card_conv)

lemma not_distinct_positions:
  "(\<not> distinct c) = (\<exists>i j. i < length c - 1 \<and> i < j \<and> j < length c \<and> c ! i = c ! j)"
proof
  assume "\<not> distinct c"
  then obtain i j where "i < j" "j < length c" "c ! i = c ! j"
    by (metis distinct_conv_nth nat_neq_iff)
  then show "\<exists>i j. i < length c - 1 \<and> i < j \<and> j < length c \<and> c ! i = c ! j"
    by (intro exI[of _ i] exI[of _ j]) auto
next
  assume "\<exists>i j. i < length c - 1 \<and> i < j \<and> j < length c \<and> c ! i = c ! j"
  then obtain i j where "i < j" "j < length c" "c ! i = c ! j" by blast
  then show "\<not> distinct c"
    by (metis distinct_conv_nth less_trans nat_neq_iff)
qed

lemma check_url_responded:
  assumes "head_response env url (count_list (head_log st) url) = Responded r"
  shows "check_url env url is_internal st =
     (Inr (Some r), record_broken url is_internal r
        (record_chain url r (st\<lparr> head_log := head_log st @ [url] \<rparr>)))"
  using assms by (simp add: check_url_def check_url_body_def numeral_2_eq_2)

lemma check_url_head_failed:
  assumes "head_response env url (count_list (head_log st) url) = HeadFailed msg"
  shows "check_url env url is_internal st =
     (Inr None, append_broken ErrorKey (ErrorEntry url is_internal msg)
        (st\<lparr> head_log := head_log st @ [url] \<rparr>))"
  using assms by (simp add: check_url_def check_url_body_def numeral_2_eq_2)

text \<open>
  Claim C6. When a probe is answered after at least one redirect, \<^verbatim>\<open>check_url\<close> returns the
  response and records the chain under the probed URL with the final status. The loop flag of
  the recorded chain is true exactly when some URL at a position before the last one occurs
  again later in the chain, which is the same as: the chain has fewer distinct URLs than
  elements. The redirect-loop counter grows by exactly 1 when the flag is true and is unchanged
  otherwise.
\<close>

theorem check_url_loop_flag:
  assumes "head_response env url (count_list (head_log st) url) = Responded r"
      and "history r \<noteq> []"
  shows "\<exists>st' ci. check_url env url is_internal st = (Inr (Some r), st')
           \<and> redirect_chains st' url = Some ci
           \<and> chain ci = history r @ [final_url r]
           \<and> final_status ci = status_code r
           \<and> has_loop ci = (\<exists>i j. i < length (chain ci) - 1 \<and> i < j \<and> j < length (chain ci)
                                  \<and> chain ci ! i = chain ci ! j)
           \<and> has_loop ci = (card (set (chain ci)) < length (chain ci))
           \<and> redirect_loops st' = redirect_loops st + (if has_loop ci then 1 else 0)"
proof -
  let ?c = "history r @ [final_url r]"
  let ?st0 = "st\<lparr> head_log := head_log st @ [url] \<rparr>"
  let ?ci = "\<lparr> chain = ?c, count = length (history r),
                final_status = status_code r, has_loop = chain_has_loop ?c \<rparr>"
  let ?st' = "record_broken url is_internal r (record_chain url r ?st0)"
  have run: "check_url env url is_internal st = (Inr (Some r), ?st')"
    by (rule check_url_responded[OF assms(1)])
  have rc: "redirect_chains ?st' url = Some ?ci"
    using assms(2) by (simp add: record_broken_def record_chain_def append_broken_def Let_def)
  have rl: "redirect_loops ?st' = redirect_loops st + (if chain_has_loop ?c then 1 else 0)"
    using assms(2) by (simp add: record_broken_def record_chain_def append_broken_def Let_def)
  have pos: "chain_has_loop ?c = (\<exists>i j. i < length ?c - 1 \<and> i < j \<and> j < length ?c \<and> ?c ! i = ?c ! j)"
    by (simp only: chain_has_loop_distinct not_distinct_positions)
  have crd: "chain_has_loop ?c = (card (set ?c) < length ?c)"
    by (rule chain_has_loop_card)
  show ?thesis
    apply (rule exI[of _ ?st'], rule exI[of _ ?ci])
    using run rc rl pos crd by simp
qed

lemma add_issue_issues [simp]: "sitemap_issues (add_issue s st) = sitemap_issues st @ [s]"
  by (simp add: add_issue_def)

lemma sitemap_except_issues:
  "\<exists>s. sitemap_issues (sitemap_except e st) = sitemap_issues st @ [s]"
  by (cases e) (simp_all add: sitemap_except_def)

lemma session_get_outside:
  "u \<notin> docs_keys env \<Longrightarrow> session_get env u = GetFailed ''connection failed''"
proof -
  assume "u \<notin> docs_keys env"
  then have "map_of (sitemap_docs env) u = None"
    by (simp add: docs_keys_def map_of_eq_None_iff)
  then show ?thesis by (simp add: session_get_def)
qed

lemma card_docs_keys: "card (docs_keys env - V) \<le> length (sitemap_docs env)"
proof -
  have "card (docs_keys env - V) \<le> card (docs_keys env)"
    by (simp add: card_mono docs_keys_def)
  also have "\<dots> \<le> length (sitemap_docs env)"
    unfolding docs_keys_def by (metis card_image_le card_length le_trans List.finite_set)
  finally show ?thesis .
qed

lemma index_loop_total:
  assumes rec: "\<And>d W s. V0 \<subseteq> W \<Longrightarrow> \<exists>W' s'. rec d W s = Some (None, W', s') \<and> W \<subseteq> W'"
  shows "V0 \<subseteq> W \<Longrightarrow> \<exists>W' s'. index_loop rec env ts W s = Some (None, W', s') \<and> W \<subseteq> W'"
proof (induction ts arbitrary: W s)
  case Nil
  then show ?case by simp
next
  case (Cons t ts)
  let ?d = "case t of None \<Rightarrow> [] | Some x \<Rightarrow> netloc env x"
  show ?case
  proof (cases "?d \<noteq> [] \<and> ?d \<notin> W")
    case True
    from rec[OF Cons.prems, of ?d s] obtain W1 s1
      where r: "rec ?d W s = Some (None, W1, s1)" and sub: "W \<subseteq> W1" by blast
    from Cons.prems sub have "V0 \<subseteq> W1" by blast
    from Cons.IH[OF this, of s1] obtain W2 s2
      where l: "index_loop rec env ts W1 s1 = Some (None, W2, s2)" and sub2: "W1 \<subseteq> W2" by blast
    from True r l sub sub2 show ?thesis by (auto simp: Let_def)
  next
    case False
    from Cons.IH[OF Cons.prems, of s] obtain W2 s2
      where l: "index_loop rec env ts W s = Some (None, W2, s2)" and sub2: "W \<subseteq> W2" by blast
    from False l sub2 show ?thesis by (auto simp: Let_def)
  qed
qed

lemma sitemap_try_total:
  assumes loop: "\<And>ts. \<exists>W' s'. index_loop rec env ts V1 st = Some (None, W', s') \<and> V1 \<subseteq> W'"
  shows "\<exists>eo V' st'. sitemap_try rec env u V1 st = Some (eo, V', st') \<and> V1 \<subseteq> V'"
proof (cases "session_get env u")
  case (GetFailed m)
  then show ?thesis by (simp add: sitemap_try_def)
next
  case (GetResponse code body)
  show ?thesis
  proof (cases "code = 200")
    case False
    with GetResponse show ?thesis by (simp add: sitemap_try_def)
  next
    case True
    show ?thesis
    proof (cases body)
      case (ParseError m)
      with GetResponse True show ?thesis by (simp add: sitemap_try_def)
    next
      case (Parsed rt)
      show ?thesis
      proof (cases "contains ''sitemapindex'' (root_tag rt)")
        case idx: True
        show ?thesis
        proof (cases "loc_texts rt")
          case (Inl e)
          with GetResponse True Parsed idx show ?thesis by (simp add: sitemap_try_def)
        next
          case (Inr ts)
          from loop[of ts] obtain W' s' where
            "index_loop rec env ts V1 st = Some (None, W', s')" "V1 \<subseteq> W'" by blast
          with GetResponse True Parsed idx Inr show ?thesis by (simp add: sitemap_try_def)
        qed
      next
        case leaf: False
        show ?thesis
        proof (cases "url_elems rt")
          case (Inl e)
          with GetResponse True Parsed leaf show ?thesis by (simp add: sitemap_try_def)
        next
          case (Inr us)
          with GetResponse True Parsed leaf show ?thesis
            by (simp add: sitemap_try_def split: prod.splits)
        qed
      qed
    qed
  qed
qed

lemma validate_sitemap_total_aux:
  "card (docs_keys env - V) < n \<Longrightarrow>
     \<exists>V' st'. validate_sitemap n env d V st = Some (None, V', st') \<and> V \<subseteq> V'"
proof (induction n arbitrary: d V st)
  case 0
  then show ?case by simp
next
  case (Suc n)
  let ?u = "sitemap_url_of d"
  show ?case
  proof (cases "?u \<in> V")
    case True
    then show ?thesis by (simp add: Let_def)
  next
    case notin: False
    let ?V1 = "insert ?u V"
    have "\<exists>eo V' st'. sitemap_try (validate_sitemap n env) env ?u ?V1 st = Some (eo, V', st') \<and> ?V1 \<subseteq> V'"
    proof (cases "?u \<in> docs_keys env")
      case False
      then show ?thesis by (auto simp add: sitemap_try_def session_get_outside)
    next
      case True
      have fin: "finite (docs_keys env - V)" by (simp add: docs_keys_def)
      have "docs_keys env - ?V1 \<subset> docs_keys env - V" using True notin by blast
      then have "card (docs_keys env - ?V1) < card (docs_keys env - V)"
        using fin by (rule psubset_card_mono[rotated])
      with Suc.prems have small: "card (docs_keys env - ?V1) < n" by simp
      have rec: "\<And>d W s. ?V1 \<subseteq> W \<Longrightarrow>
          \<exists>W' s'. validate_sitemap n env d W s = Some (None, W', s') \<and> W \<subseteq> W'"
      proof -
        fix d W s assume sub: "?V1 \<subseteq> W"
        have "card (docs_keys env - W) \<le> card (docs_keys env - ?V1)"
          using sub by (intro card_mono) (auto simp: docs_keys_def)
        with small have "card (docs_keys env - W) < n" by simp
        from Suc.IH[OF this] show "\<exists>W' s'. validate_sitemap n env d W s = Some (None, W', s') \<and> W \<subseteq> W'" .
      qed
      have loop: "\<And>ts. \<exists>W' s'. index_loop (validate_sitemap n env) env ts ?V1 st = Some (None, W', s') \<and> ?V1 \<subseteq> W'"
        using index_loop_total[where rec="validate_sitemap n env" and ?V0.0 = ?V1, OF rec] by blast
      show ?thesis
        by (rule sitemap_try_total[OF loop])
    qed
    then obtain eo V' st' where
      t: "sitemap_try (validate_sitemap n env) env ?u ?V1 st = Some (eo, V', st')" and sub: "?V1 \<subseteq> V'"
      by blast
    from notin t sub show ?thesis
      by (cases eo) (auto simp: Let_def)
  qed
qed

lemma validate_sitemap_total:
  "length (sitemap_docs env) < n \<Longrightarrow>
     \<exists>V' st'. validate_sitemap n env d V st = Some (None, V', st') \<and> V \<subseteq> V'"
  using validate_sitemap_total_aux[of env V n d st] card_docs_keys[of env V] by simp

lemma index_loop_mono:
  assumes rec: "\<And>d W s r. rec d W s = Some r \<Longrightarrow> rec' d W s = Some r"
  shows "index_loop rec env ts W s = Some r \<Longrightarrow> index_loop rec' env ts W s = Some r"
proof (induction ts arbitrary: W s)
  case Nil
  then show ?case by simp
next
  case (Cons t ts)
  let ?d = "case t of None \<Rightarrow> [] | Some x \<Rightarrow> netloc env x"
  show ?case
  proof (cases "?d \<noteq> [] \<and> ?d \<notin> W")
    case False
    with Cons.prems Cons.IH[of W s] show ?thesis by (auto simp add: Let_def)
  next
    case True
    show ?thesis
    proof (cases "rec ?d W s")
      case None
      with True Cons.prems show ?thesis by (simp add: Let_def)
    next
      case (Some q)
      then have q': "rec' ?d W s = Some q" by (rule rec)
      obtain eo W1 s1 where q: "q = (eo, W1, s1)" by (cases q) auto
      show ?thesis
      proof (cases eo)
        case None
        with True Some q q' Cons.prems Cons.IH[of W1 s1] show ?thesis by (simp add: Let_def)
      next
        case (Some e)
        with True \<open>rec ?d W s = Some q\<close> q q' Cons.prems show ?thesis by (auto simp add: Let_def)
      qed
    qed
  qed
qed

lemma sitemap_try_mono:
  assumes rec: "\<And>d W s r. rec d W s = Some r \<Longrightarrow> rec' d W s = Some r"
  shows "sitemap_try rec env u W s = Some r \<Longrightarrow> sitemap_try rec' env u W s = Some r"
proof -
  have il: "\<And>ts. index_loop rec env ts W s = Some r \<Longrightarrow> index_loop rec' env ts W s = Some r"
    using index_loop_mono[of rec rec'] rec by blast
  assume "sitemap_try rec env u W s = Some r"
  then show ?thesis
    unfolding sitemap_try_def
    by (auto split: get_outcome.splits xml_parse.splits sum.splits prod.splits if_splits
             dest: il)
qed

lemma validate_sitemap_Suc:
  "validate_sitemap n env d V st = Some r \<Longrightarrow> validate_sitemap (Suc n) env d V st = Some r"
proof (induction n arbitrary: d V st r)
  case 0
  then show ?case by simp
next
  case (Suc n)
  let ?u = "sitemap_url_of d"
  show ?case
  proof (cases "?u \<in> V")
    case True
    with Suc.prems show ?thesis by (simp add: Let_def)
  next
    case False
    from Suc.prems False obtain q where
      q: "sitemap_try (validate_sitemap n env) env ?u (insert ?u V) st = Some q"
      by (auto simp: Let_def split: option.splits)
    have q': "sitemap_try (validate_sitemap (Suc n) env) env ?u (insert ?u V) st = Some q"
      by (rule sitemap_try_mono[OF _ q]) (rule Suc.IH)
    have "validate_sitemap (Suc (Suc n)) env d V st = validate_sitemap (Suc n) env d V st"
      using False q q' by (simp add: Let_def)
    with Suc.prems show ?thesis by simp
  qed
qed

lemma validate_sitemap_more_fuel:
  "validate_sitemap n env d V st = Some r \<Longrightarrow> n \<le> m \<Longrightarrow> validate_sitemap m env d V st = Some r"
  by (induction m) (auto simp: le_Suc_eq dest: validate_sitemap_Suc simp del: validate_sitemap.simps)

lemma grows_refl [simp]: "grows st st" by (simp add: grows_def)

lemma grows_trans: "grows a b \<Longrightarrow> grows b c \<Longrightarrow> grows a c"
  by (auto simp: grows_def)

lemma grows_add_issue [simp]: "grows st (add_issue s st)" by (simp add: grows_def)

lemma retry_call_inv:
  assumes "\<And>s. g (snd (f s)) = g s"
  shows "g (snd (retry_call n f s)) = g s"
proof (induction n arbitrary: s)
  case 0
  show ?case using assms[of s] by (cases "f s") (auto split: sum.splits)
next
  case (Suc n)
  show ?case
  proof (cases "f s")
    case (Pair r s')
    with assms[of s] have g: "g s' = g s" by simp
    show ?thesis
    proof (cases r)
      case (Inl e)
      with Pair Suc[of s'] g show ?thesis by simp
    next
      case (Inr v)
      with Pair g show ?thesis by simp
    qed
  qed
qed

lemma retry_call_error:
  "fst (retry_call n f s) = Inl e \<Longrightarrow> \<exists>m. e = RetryError m"
proof (induction n arbitrary: s)
  case 0
  then show ?case by (auto split: prod.splits sum.splits)
next
  case (Suc n)
  then show ?case by (auto split: prod.splits sum.splits)
qed

lemma check_url_body_issues:
  "sitemap_issues (snd (check_url_body env u i st)) = sitemap_issues st"
  by (simp add: check_url_body_def record_broken_def record_chain_def append_broken_def Let_def
           split: head_outcome.splits)

lemma check_url_issues: "sitemap_issues (snd (check_url env u i st)) = sitemap_issues st"
  unfolding check_url_def by (rule retry_call_inv) (rule check_url_body_issues)

lemma check_url_error: "check_url env u i st = (Inl e, st') \<Longrightarrow> \<exists>m. e = RetryError m"
  unfolding check_url_def using retry_call_error[of 2 "check_url_body env u i" st e] by simp

lemma check_loc_grows: "grows st (snd (check_loc env l st))"
proof (cases l)
  case None
  then show ?thesis by (simp add: check_loc_def)
next
  case (Some u)
  obtain r st' where c: "check_url env u True st = (r, st')" by (cases "check_url env u True st")
  with check_url_issues[of env u True st] have "sitemap_issues st' = sitemap_issues st" by simp
  then have "grows st st'" by (simp add: grows_def)
  moreover have "grows st' (snd (check_loc env l st))"
    using Some c by (auto simp: check_loc_def split: sum.splits option.splits)
  ultimately show ?thesis by (rule grows_trans)
qed

lemma check_loc_error: "check_loc env l st = (Some e, st') \<Longrightarrow> \<exists>m. e = RetryError m"
  by (auto simp: check_loc_def split: option.splits sum.splits prod.splits if_splits
           dest: check_url_error)

lemma check_lastmod_grows: "grows st (snd (check_lastmod env lm st))"
  by (simp add: check_lastmod_def split: option.splits)

lemma check_priority_grows: "grows st (snd (check_priority env pr st))"
  by (simp add: check_priority_def split: option.splits pyfloat.splits)

lemma validate_url_grows: "grows st (snd (validate_url env x st))"
proof -
  obtain a s1 where l: "check_loc env (loc x) st = (a, s1)" by (cases "check_loc env (loc x) st")
  obtain b s2 where m: "check_lastmod env (lastmod x) s1 = (b, s2)"
    by (cases "check_lastmod env (lastmod x) s1")
  have g1: "grows st s1" using check_loc_grows[of st env "loc x"] l by simp
  have g2: "grows s1 s2" using check_lastmod_grows[of s1 env "lastmod x"] m by simp
  have g3: "grows s2 (snd (check_priority env (priority x) s2))" by (rule check_priority_grows)
  show ?thesis
    using l m g1 grows_trans[OF g1 g2] grows_trans[OF grows_trans[OF g1 g2] g3]
    by (auto simp: validate_url_def split: option.splits)
qed

lemma leaf_loop_grows: "grows st (snd (leaf_loop env us st))"
proof (induction us arbitrary: st)
  case Nil
  show ?case by simp
next
  case (Cons x us)
  obtain a s1 where v: "validate_url env x st = (a, s1)" by (cases "validate_url env x st")
  have g1: "grows st s1" using validate_url_grows[of st env x] v by simp
  show ?case
  proof (cases a)
    case None
    with v grows_trans[OF g1 Cons.IH[of s1]] show ?thesis by simp
  next
    case (Some e)
    with v g1 show ?thesis by simp
  qed
qed

lemma validate_url_error:
  "validate_url env x st = (Some e, st') \<Longrightarrow>
     (\<exists>m. e = RetryError m) \<or> (\<exists>m. e = AttributeError m) \<or> (\<exists>m. e = TypeError m)"
  by (auto simp: validate_url_def check_lastmod_def check_priority_def
           split: option.splits prod.splits if_splits pyfloat.splits dest: check_loc_error)

lemma leaf_loop_error:
  "leaf_loop env us st = (Some e, st') \<Longrightarrow>
     (\<exists>m. e = RetryError m) \<or> (\<exists>m. e = AttributeError m) \<or> (\<exists>m. e = TypeError m)"
proof (induction us arbitrary: st)
  case Nil
  then show ?case by simp
next
  case (Cons x us)
  obtain a s1 where v: "validate_url env x st = (a, s1)" by (cases "validate_url env x st")
  show ?case
  proof (cases a)
    case None
    with v Cons.prems have "leaf_loop env us s1 = (Some e, st')" by simp
    then show ?thesis by (rule Cons.IH)
  next
    case (Some e')
    with v Cons.prems have "validate_url env x st = (Some e, st')" by simp
    then show ?thesis by (rule validate_url_error)
  qed
qed

lemma sitemap_except_unexpected:
  "(\<exists>m. e = RetryError m) \<or> (\<exists>m. e = AttributeError m) \<or> (\<exists>m. e = TypeError m) \<Longrightarrow>
     sitemap_except e st = add_issue (''Unexpected error processing sitemap: '' @ str_of e) st"
  by (auto simp: sitemap_except_def)

lemma records_add_issue [simp]: "records msg st (add_issue msg st)"
  unfolding records_def by (rule exI[of _ "[]"], rule exI[of _ "[]"]) simp

lemma grows_records: "grows a b \<Longrightarrow> records msg b c \<Longrightarrow> records msg a c"
  unfolding grows_def records_def
proof -
  assume "\<exists>new. sitemap_issues b = sitemap_issues a @ new"
    and "\<exists>x y. sitemap_issues c = sitemap_issues b @ x @ msg # y"
  then obtain new x y where "sitemap_issues b = sitemap_issues a @ new"
    "sitemap_issues c = sitemap_issues b @ x @ msg # y" by blast
  then have "sitemap_issues c = sitemap_issues a @ (new @ x) @ msg # y" by simp
  then show "\<exists>x y. sitemap_issues c = sitemap_issues a @ x @ msg # y" by blast
qed

lemma records_grows: "records msg a b \<Longrightarrow> grows b c \<Longrightarrow> records msg a c"
  unfolding grows_def records_def
proof -
  assume "\<exists>x y. sitemap_issues b = sitemap_issues a @ x @ msg # y"
    and "\<exists>new. sitemap_issues c = sitemap_issues b @ new"
  then obtain new x y where "sitemap_issues b = sitemap_issues a @ x @ msg # y"
    "sitemap_issues c = sitemap_issues b @ new" by blast
  then have "sitemap_issues c = sitemap_issues a @ x @ msg # (y @ new)" by simp
  then show "\<exists>x y. sitemap_issues c = sitemap_issues a @ x @ msg # y" by blast
qed

lemma records_new:
  "records msg st st' \<Longrightarrow> sitemap_issues st' = sitemap_issues st @ new \<Longrightarrow> msg \<in> set new"
  by (auto simp: records_def)

lemma validate_url_parts:
  assumes "validate_url env x st = (None, st')"
  obtains s1 s2 where "check_loc env (loc x) st = (None, s1)"
    "check_lastmod env (lastmod x) s1 = (None, s2)"
    "check_priority env (priority x) s2 = (None, st')"
  using assms by (auto simp: validate_url_def split: option.splits prod.splits)

lemma validate_url_lastmod':
  assumes "validate_url env x st = (None, st')" "lastmod x = Some (Some t)"
    "\<not> is_iso env (replace_Z t)"
  shows "records (''Invalid lastmod format in sitemap: '' @ t) st st'"
proof -
  from assms(1) obtain s1 s2 where l: "check_loc env (loc x) st = (None, s1)"
    and m: "check_lastmod env (lastmod x) s1 = (None, s2)"
    and p: "check_priority env (priority x) s2 = (None, st')" by (rule validate_url_parts)
  have g1: "grows st s1" using check_loc_grows[of st env "loc x"] l by simp
  have "s2 = add_issue (''Invalid lastmod format in sitemap: '' @ t) s1"
    using m assms(2,3) by (simp add: check_lastmod_def)
  then have r: "records (''Invalid lastmod format in sitemap: '' @ t) s1 s2" by simp
  have g3: "grows s2 st'" using check_priority_grows[of s2 env "priority x"] p by simp
  show ?thesis by (rule records_grows[OF grows_records[OF g1 r] g3])
qed

lemma validate_url_priority':
  assumes "validate_url env x st = (None, st')" "priority x = Some (Some t)"
    and "check_priority env (Some (Some t)) = (\<lambda>s. (None, add_issue msg s))"
  shows "records msg st st'"
proof -
  from assms(1) obtain s1 s2 where l: "check_loc env (loc x) st = (None, s1)"
    and m: "check_lastmod env (lastmod x) s1 = (None, s2)"
    and p: "check_priority env (priority x) s2 = (None, st')" by (rule validate_url_parts)
  have g1: "grows st s1" using check_loc_grows[of st env "loc x"] l by simp
  have g2: "grows s1 s2" using check_lastmod_grows[of s1 env "lastmod x"] m by simp
  have "st' = add_issue msg s2" using p assms(2,3) by simp
  then have r: "records msg s2 st'" by simp
  show ?thesis by (rule grows_records[OF grows_trans[OF g1 g2] r])
qed

lemma check_priority_format:
  "parse_float env t = None \<Longrightarrow> check_priority env (Some (Some t)) =
     (\<lambda>s. (None, add_issue (''Invalid priority format in sitemap: '' @ t) s))"
  by (rule ext) (simp add: check_priority_def)

lemma check_priority_value:
  "parse_float env t = Some NonFinite \<or>
     (\<exists>q. parse_float env t = Some (Finite q) \<and> \<not> (0 \<le> q \<and> q \<le> 1)) \<Longrightarrow>
   check_priority env (Some (Some t)) =
     (\<lambda>s. (None, add_issue (''Invalid priority value in sitemap: '' @ t) s))"
  by (rule ext) (auto simp add: check_priority_def)

lemma leaf_loop_records:
  assumes one: "\<And>s s'. validate_url env x s = (None, s') \<Longrightarrow> records msg s s'"
  shows "leaf_loop env us st = (None, st') \<Longrightarrow> x \<in> set us \<Longrightarrow> records msg st st'"
proof (induction us arbitrary: st)
  case Nil
  then show ?case by simp
next
  case (Cons y us)
  obtain s1 where v: "validate_url env y st = (None, s1)" and r: "leaf_loop env us s1 = (None, st')"
    using Cons.prems(1) by (auto split: prod.splits option.splits)
  have g1: "grows st s1" using validate_url_grows[of st env y] v by simp
  show ?case
  proof (cases "x = y")
    case True
    with v have "validate_url env x st = (None, s1)" by simp
    then have "records msg st s1" by (rule one)
    moreover have "grows s1 st'" using leaf_loop_grows[of s1 env us] r by simp
    ultimately show ?thesis by (rule records_grows)
  next
    case False
    with Cons.prems(2) have "x \<in> set us" by simp
    with Cons.IH[OF r] have "records msg s1 st'" .
    with g1 show ?thesis by (rule grows_records)
  qed
qed

lemma validate_sitemap_unvisited:
  assumes "sitemap_url_of d \<notin> V"
  shows "validate_sitemap (Suc n) env d V st =
     (case sitemap_try (validate_sitemap n env) env (sitemap_url_of d) (insert (sitemap_url_of d) V) st of
        None \<Rightarrow> None
      | Some (None, V', st') \<Rightarrow> Some (None, V', st')
      | Some (Some e, V', st') \<Rightarrow> Some (None, V', sitemap_except e st'))"
  using assms by (simp add: Let_def)

lemma index_loop_grows:
  assumes rec: "\<And>d W s r. rec d W s = Some r \<Longrightarrow> grows s (snd (snd r))"
  shows "index_loop rec env ts W s = Some r \<Longrightarrow> grows s (snd (snd r))"
proof (induction ts arbitrary: W s)
  case Nil
  then show ?case by auto
next
  case (Cons t ts)
  let ?d = "case t of None \<Rightarrow> [] | Some x \<Rightarrow> netloc env x"
  show ?case
  proof (cases "?d \<noteq> [] \<and> ?d \<notin> W")
    case False
    with Cons.prems Cons.IH[of W s] show ?thesis by (auto simp add: Let_def)
  next
    case True
    with Cons.prems obtain eo W1 s1 where q: "rec ?d W s = Some (eo, W1, s1)"
      by (auto simp: Let_def split: option.splits)
    from rec[OF q] have g1: "grows s s1" by simp
    show ?thesis
    proof (cases eo)
      case None
      with True q Cons.prems have "index_loop rec env ts W1 s1 = Some r" by (simp add: Let_def)
      from Cons.IH[OF this] g1 show ?thesis by (rule grows_trans[rotated])
    next
      case (Some e)
      with True q Cons.prems have "r = (Some e, W1, s1)" by (auto simp add: Let_def)
      with g1 show ?thesis by simp
    qed
  qed
qed

lemma leaf_loop_grows': "leaf_loop env us s = (a, s') \<Longrightarrow> grows s s'"
  using leaf_loop_grows[of s env us] by simp

lemma sitemap_try_grows:
  assumes rec: "\<And>d W s r. rec d W s = Some r \<Longrightarrow> grows s (snd (snd r))"
  shows "sitemap_try rec env u W s = Some r \<Longrightarrow> grows s (snd (snd r))"
proof -
  have il: "\<And>ts. index_loop rec env ts W s = Some r \<Longrightarrow> grows s (snd (snd r))"
    using index_loop_grows[of rec] rec by blast
  assume "sitemap_try rec env u W s = Some r"
  then show ?thesis
    unfolding sitemap_try_def
    by (auto split: get_outcome.splits xml_parse.splits sum.splits prod.splits if_splits
             dest: il leaf_loop_grows')
qed

lemma sitemap_except_grows: "grows st (sitemap_except e st)"
  using sitemap_except_issues[of e st] by (auto simp: grows_def)

lemma validate_sitemap_grows:
  "validate_sitemap n env d V st = Some r \<Longrightarrow> grows st (snd (snd r))"
proof (induction n arbitrary: d V st r)
  case 0
  then show ?case by simp
next
  case (Suc n)
  let ?u = "sitemap_url_of d"
  show ?case
  proof (cases "?u \<in> V")
    case True
    with Suc.prems show ?thesis by (auto simp add: Let_def)
  next
    case False
    from Suc.prems False obtain eo V1 s1 where
      q: "sitemap_try (validate_sitemap n env) env ?u (insert ?u V) st = Some (eo, V1, s1)"
      by (auto simp: Let_def split: option.splits)
    have g: "grows st s1"
      using sitemap_try_grows[of "validate_sitemap n env", OF Suc.IH q] by simp
    show ?thesis
    proof (cases eo)
      case None
      with Suc.prems False q g show ?thesis by (auto simp: Let_def)
    next
      case (Some e)
      with Suc.prems False q have "r = (None, V1, sitemap_except e s1)" by (auto simp: Let_def)
      with grows_trans[OF g sitemap_except_grows[of s1 e]] show ?thesis by simp
    qed
  qed
qed

text \<open>
  Claim C9. \<^verbatim>\<open>validate_sitemap\<close> terminates for every set of sitemap documents, cyclic
  references included: with any fuel above the number of documents the call returns, and
  always the same result. On a sitemap URL that is already in the visited set the call changes
  neither the visited set nor the analyzer.
\<close>

theorem validate_sitemap_terminates:
  "(\<exists>r. \<forall>n. sitemap_fuel env \<le> n \<longrightarrow> validate_sitemap n env domain V st = Some r)
   \<and> (sitemap_url_of domain \<in> V \<longrightarrow>
        (\<forall>n. validate_sitemap (Suc n) env domain V st = Some (None, V, st)))"
proof
  obtain V' st' where r: "validate_sitemap (sitemap_fuel env) env domain V st = Some (None, V', st')"
    using validate_sitemap_total[of env "sitemap_fuel env" domain V st]
    by (auto simp: sitemap_fuel_def)
  have "\<forall>n. sitemap_fuel env \<le> n \<longrightarrow> validate_sitemap n env domain V st = Some (None, V', st')"
    using validate_sitemap_more_fuel[OF r] by blast
  then show "\<exists>r. \<forall>n. sitemap_fuel env \<le> n \<longrightarrow> validate_sitemap n env domain V st = Some r"
    by blast
  show "sitemap_url_of domain \<in> V \<longrightarrow>
        (\<forall>n. validate_sitemap (Suc n) env domain V st = Some (None, V, st))"
    by (simp add: Let_def)
qed

text \<open>
  Claim C10. No exception leaves \<^verbatim>\<open>validate_sitemap\<close>: the call returns normally with
  an empty exception slot, and the issue list only grows, by \<open>new\<close>. On a sitemap URL not
  visited before: a network failure, a status other than 200 and unparsable XML each add
  exactly their own issue string; an exception raised by a query on the root, or while the
  url elements are processed, adds the "Unexpected error" string; and when the url elements
  are processed without an exception, every malformed lastmod, every unparsable priority and
  every priority outside [0, 1] is among the added issues.
\<close>

theorem validate_sitemap_never_raises:
  "\<exists>V' st' new.
      validate_sitemap (sitemap_fuel env) env domain V st = Some (None, V', st')
    \<and> sitemap_issues st' = sitemap_issues st @ new
    \<and> (sitemap_url_of domain \<notin> V \<longrightarrow>
        (\<forall>m. session_get env (sitemap_url_of domain) = GetFailed m \<longrightarrow>
              new = [''Error fetching sitemap: '' @ m])
      \<and> (\<forall>code body. session_get env (sitemap_url_of domain) = GetResponse code body
              \<and> code \<noteq> 200 \<longrightarrow>
              new = [''Sitemap not found at '' @ sitemap_url_of domain])
      \<and> (\<forall>m. session_get env (sitemap_url_of domain) = GetResponse 200 (ParseError m) \<longrightarrow>
              new = [''Invalid XML in sitemap: '' @ m])
      \<and> (\<forall>rt e. session_get env (sitemap_url_of domain) = GetResponse 200 (Parsed rt)
              \<and> (if contains ''sitemapindex'' (root_tag rt) then loc_texts rt = Inl e
                  else url_elems rt = Inl e)
              \<and> (\<forall>m. e \<noteq> RequestException m) \<longrightarrow>
              new = [''Unexpected error processing sitemap: '' @ str_of e])
      \<and> (\<forall>rt us. session_get env (sitemap_url_of domain) = GetResponse 200 (Parsed rt)
              \<and> \<not> contains ''sitemapindex'' (root_tag rt) \<and> url_elems rt = Inr us \<longrightarrow>
            (\<forall>e s1. leaf_loop env us st = (Some e, s1) \<longrightarrow>
               new \<noteq> [] \<and> last new = ''Unexpected error processing sitemap: '' @ str_of e)
          \<and> (\<forall>s1. leaf_loop env us st = (None, s1) \<longrightarrow> (\<forall>x \<in> set us.
                (\<forall>t. lastmod x = Some (Some t) \<and> \<not> is_iso env (replace_Z t) \<longrightarrow>
                   (''Invalid lastmod format in sitemap: '' @ t) \<in> set new)
              \<and> (\<forall>t. priority x = Some (Some t) \<and> parse_float env t = None \<longrightarrow>
                   (''Invalid priority format in sitemap: '' @ t) \<in> set new)
              \<and> (\<forall>t. priority x = Some (Some t) \<and> (parse_float env t = Some NonFinite \<or>
                    (\<exists>q. parse_float env t = Some (Finite q) \<and> \<not> (0 \<le> q \<and> q \<le> 1))) \<longrightarrow>
                   (''Invalid priority value in sitemap: '' @ t) \<in> set new)))))"
proof -
  let ?u = "sitemap_url_of domain"
  let ?k = "length (sitemap_docs env)"
  obtain V' st' where r: "validate_sitemap (sitemap_fuel env) env domain V st = Some (None, V', st')"
    using validate_sitemap_total[of env "sitemap_fuel env" domain V st]
    by (auto simp: sitemap_fuel_def)
  from validate_sitemap_grows[OF r] obtain new where
    new: "sitemap_issues st' = sitemap_issues st @ new" by (auto simp: grows_def)
  have unv: "?u \<notin> V \<Longrightarrow> Some (None, V', st') =
     (case sitemap_try (validate_sitemap ?k env) env ?u (insert ?u V) st of
        None \<Rightarrow> None
      | Some (None, W, s) \<Rightarrow> Some (None, W, s)
      | Some (Some e, W, s) \<Rightarrow> Some (None, W, sitemap_except e s))"
  proof -
    assume a: "?u \<notin> V"
    show ?thesis
      using r unfolding sitemap_fuel_def validate_sitemap_unvisited[OF a]
      by (auto split: option.splits prod.splits)
  qed
  have c1: "new = [''Error fetching sitemap: '' @ m]"
    if "?u \<notin> V" "session_get env ?u = GetFailed m" for m
    using unv[OF that(1)] that(2) new
    by (simp add: sitemap_try_def sitemap_except_def add_issue_def)
  have c2: "new = [''Sitemap not found at '' @ ?u]"
    if "?u \<notin> V" "session_get env ?u = GetResponse code body" "code \<noteq> 200" for code body
    using unv[OF that(1)] that(2,3) new
    by (auto simp add: sitemap_try_def add_issue_def)
  have c3: "new = [''Invalid XML in sitemap: '' @ m]"
    if "?u \<notin> V" "session_get env ?u = GetResponse 200 (ParseError m)" for m
    using unv[OF that(1)] that(2) new
    by (auto simp add: sitemap_try_def add_issue_def)
  have c4: "new = [''Unexpected error processing sitemap: '' @ str_of e]"
    if "?u \<notin> V" "session_get env ?u = GetResponse 200 (Parsed rt)"
      "if contains ''sitemapindex'' (root_tag rt) then loc_texts rt = Inl e
       else url_elems rt = Inl e" "\<forall>m. e \<noteq> RequestException m" for rt e
  proof -
    have "sitemap_try (validate_sitemap ?k env) env ?u (insert ?u V) st
            = Some (Some e, insert ?u V, st)"
      using that(2,3) by (auto simp: sitemap_try_def split: if_splits)
    with unv[OF that(1)] have "st' = sitemap_except e st" by simp
    moreover have "sitemap_except e st
        = add_issue (''Unexpected error processing sitemap: '' @ str_of e) st"
      using that(4) by (cases e) (auto simp: sitemap_except_def)
    ultimately show ?thesis using new by (simp add: add_issue_def)
  qed
  have leaf: "sitemap_try (validate_sitemap ?k env) env ?u (insert ?u V) st
            = Some (fst (leaf_loop env us st), insert ?u V, snd (leaf_loop env us st))"
    if "session_get env ?u = GetResponse 200 (Parsed rt)"
      "\<not> contains ''sitemapindex'' (root_tag rt)" "url_elems rt = Inr us" for rt us
    using that by (simp add: sitemap_try_def split: prod.splits)
  have c5: "new \<noteq> [] \<and> last new = ''Unexpected error processing sitemap: '' @ str_of e"
    if "?u \<notin> V" "session_get env ?u = GetResponse 200 (Parsed rt)"
      "\<not> contains ''sitemapindex'' (root_tag rt)" "url_elems rt = Inr us"
      "leaf_loop env us st = (Some e, s1)" for rt us e s1
  proof -
    from unv[OF that(1)] leaf[OF that(2,3,4)] that(5)
    have st': "st' = sitemap_except e s1" by simp
    have "sitemap_except e s1 = add_issue (''Unexpected error processing sitemap: '' @ str_of e) s1"
      by (rule sitemap_except_unexpected) (rule leaf_loop_error[OF that(5)])
    with st' have i: "sitemap_issues st' = sitemap_issues s1
        @ [''Unexpected error processing sitemap: '' @ str_of e]" by simp
    from leaf_loop_grows[of st env us] that(5) obtain a where
      "sitemap_issues s1 = sitemap_issues st @ a" by (auto simp: grows_def)
    with i new have "new = a @ [''Unexpected error processing sitemap: '' @ str_of e]" by simp
    then show ?thesis by simp
  qed
  have c6: "msg \<in> set new"
    if "?u \<notin> V" "session_get env ?u = GetResponse 200 (Parsed rt)"
      "\<not> contains ''sitemapindex'' (root_tag rt)" "url_elems rt = Inr us"
      "leaf_loop env us st = (None, s1)" "x \<in> set us"
      "\<And>s s'. validate_url env x s = (None, s') \<Longrightarrow> records msg s s'" for rt us s1 x msg
  proof -
    from unv[OF that(1)] leaf[OF that(2,3,4)] that(5) have "st' = s1" by simp
    moreover have "records msg st s1" by (rule leaf_loop_records[OF that(7) that(5) that(6)])
    ultimately show ?thesis using new by (auto dest: records_new)
  qed
  have c6a: "(''Invalid lastmod format in sitemap: '' @ t) \<in> set new"
    if "?u \<notin> V" "session_get env ?u = GetResponse 200 (Parsed rt)"
      "\<not> contains ''sitemapindex'' (root_tag rt)" "url_elems rt = Inr us"
      "leaf_loop env us st = (None, s1)" "x \<in> set us"
      "lastmod x = Some (Some t)" "\<not> is_iso env (replace_Z t)" for rt us s1 x t
    by (rule c6[OF that(1-6)]) (rule validate_url_lastmod'[OF _ that(7,8)])
  have c6b: "(''Invalid priority format in sitemap: '' @ t) \<in> set new"
    if "?u \<notin> V" "session_get env ?u = GetResponse 200 (Parsed rt)"
      "\<not> contains ''sitemapindex'' (root_tag rt)" "url_elems rt = Inr us"
      "leaf_loop env us st = (None, s1)" "x \<in> set us"
      "priority x = Some (Some t)" "parse_float env t = None" for rt us s1 x t
    by (rule c6[OF that(1-6)]) (rule validate_url_priority'[OF _ that(7) check_priority_format[OF that(8)]])
  have c6c: "(''Invalid priority value in sitemap: '' @ t) \<in> set new"
    if "?u \<notin> V" "session_get env ?u = GetResponse 200 (Parsed rt)"
      "\<not> contains ''sitemapindex'' (root_tag rt)" "url_elems rt = Inr us"
      "leaf_loop env us st = (None, s1)" "x \<in> set us"
      "priority x = Some (Some t)" "parse_float env t = Some NonFinite \<or>
                    (\<exists>q. parse_float env t = Some (Finite q) \<and> \<not> (0 \<le> q \<and> q \<le> 1))"
    for rt us s1 x t
    by (rule c6[OF that(1-6)]) (rule validate_url_priority'[OF _ that(7) check_priority_value[OF that(8)]])
  show ?thesis
    apply (rule exI[of _ V'], rule exI[of _ st'], rule exI[of _ new])
    apply (intro conjI impI allI ballI)
    subgoal by (rule r)
    subgoal by (rule new)
    subgoal by (rule c1)
    subgoal by (elim conjE) (rule c2)
    subgoal by (rule c3)
    subgoal by (elim conjE) (rule c4)
    subgoal using c5 by blast
    subgoal using c5 by blast
    subgoal by (elim conjE) (rule c6a)
    subgoal by (elim conjE) (rule c6b)
    subgoal by (elim conjE) (rule c6c)
    done
qed

text \<open>
  Claim C3 fails on the code. The first HEAD request to the URL fails with a
  \<^verbatim>\<open>RequestException\<close> and a second request would be answered with status 200. The
  \<^verbatim>\<open>except\<close> clause inside \<^verbatim>\<open>check_url\<close> catches the exception before the
  \<^verbatim>\<open>@retry\<close> decorator can see it: exactly one request is sent, the URL is recorded
  under 'error' at once, and \<open>None\<close> is returned.
\<close>

theorem check_url_failure_not_retried:
  "fst (check_url flaky_net ''https://example.com/a'' True tech_init) = Inr None
   \<and> head_log (snd (check_url flaky_net ''https://example.com/a'' True tech_init))
        = [''https://example.com/a'']
   \<and> broken_links (snd (check_url flaky_net ''https://example.com/a'' True tech_init)) ErrorKey
        = [ErrorEntry ''https://example.com/a'' True ''Connection reset by peer'']
   \<and> head_response flaky_net ''https://example.com/a'' 1
        = Responded \<lparr> status_code = 200, history = [], final_url = ''https://example.com/a'' \<rparr>"
proof -
  have "head_response flaky_net ''https://example.com/a''
          (count_list (head_log tech_init) ''https://example.com/a'')
        = HeadFailed ''Connection reset by peer''"
    by (simp add: flaky_net_def tech_init_def)
  from check_url_head_failed[OF this, of True] show ?thesis
    by (simp add: append_broken_def tech_init_def flaky_net_def)
qed

theorem check_url_loop_flag_witness:
  "\<exists>st' ci. check_url loop_net ''https://example.com/loop'' True tech_init
             = (Inr (Some \<lparr> status_code = 200,
                  history = [''https://example.com/loop'', ''https://example.com/a''],
                  final_url = ''https://example.com/loop'' \<rparr>), st')
     \<and> redirect_chains st' ''https://example.com/loop'' = Some ci
     \<and> chain ci = [''https://example.com/loop'', ''https://example.com/a'', ''https://example.com/loop'']
     \<and> has_loop ci \<and> redirect_loops st' = 1"
proof -
  let ?r = "\<lparr> status_code = 200,
                  history = [''https://example.com/loop'', ''https://example.com/a''],
                  final_url = ''https://example.com/loop'' \<rparr>"
  have h1: "head_response loop_net ''https://example.com/loop''
      (count_list (head_log tech_init) ''https://example.com/loop'') = Responded ?r"
    by (simp add: loop_net_def)
  have h2: "history ?r \<noteq> []" by simp
  from check_url_loop_flag[OF h1 h2, of True] obtain st' ci where
    a: "check_url loop_net ''https://example.com/loop'' True tech_init = (Inr (Some ?r), st')"
    and b: "redirect_chains st' ''https://example.com/loop'' = Some ci"
    and c: "chain ci = history ?r @ [final_url ?r]"
    and d: "has_loop ci = (card (set (chain ci)) < length (chain ci))"
    and e: "redirect_loops st' = redirect_loops tech_init + (if has_loop ci then 1 else 0)"
    by blast
  from c have c': "chain ci = [''https://example.com/loop'', ''https://example.com/a'', ''https://example.com/loop'']"
    by simp
  from d c' have d': "has_loop ci" by (simp add: card_insert_if)
  from e d' have e': "redirect_loops st' = 1" by (simp add: tech_init_def)
  from a b c' d' e' show ?thesis by blast
qed

theorem validate_sitemap_terminates_witness:
  "(\<exists>r. \<forall>n. 3 \<le> n \<longrightarrow> validate_sitemap n cycle_net ''a.example'' {} tech_init = Some r)
   \<and> validate_sitemap 1 cycle_net ''a.example'' {''https://a.example/sitemap.xml''} tech_init
       = Some (None, {''https://a.example/sitemap.xml''}, tech_init)"
  using validate_sitemap_terminates[of cycle_net "''a.example''"
          "{''https://a.example/sitemap.xml''}" tech_init]
        validate_sitemap_terminates[of cycle_net "''a.example''" "{}" tech_init]
  by (simp add: sitemap_fuel_def cycle_net_def sitemap_url_of_def numeral_3_eq_3
           del: validate_sitemap.simps)

lemma cycle_run:
  "validate_sitemap 3 cycle_net ''a.example'' {} tech_init
     = Some (None, {''https://a.example/sitemap.xml'', ''https://b.example/sitemap.xml''}, tech_init)"
  by (simp add: numeral_3_eq_3 Let_def sitemap_url_of_def sitemap_try_def session_get_def
        cycle_net_def quiet_net_def index_doc_def netloc_of_def insert_commute)

lemma leaf_run:
  "leaf_loop leaf_net [\<lparr> loc = None, lastmod = Some (Some ''yesterday''),
                              priority = Some (Some ''2'') \<rparr>] tech_init
    = (None, add_issue ''Invalid priority value in sitemap: 2''
         (add_issue ''Invalid lastmod format in sitemap: yesterday'' tech_init))"
  by (simp add: validate_url_def check_loc_def check_lastmod_def check_priority_def
        leaf_net_def quiet_net_def replace_Z_def)

lemma leaf_net_get:
  "session_get leaf_net ''https://shop.example/sitemap.xml'' = GetResponse 200 (Parsed
         \<lparr> root_tag = ''{http://www.sitemaps.org/schemas/sitemap/0.9}urlset'',
           loc_texts = Inr [],
           url_elems = Inr [\<lparr> loc = None, lastmod = Some (Some ''yesterday''),
                              priority = Some (Some ''2'') \<rparr>] \<rparr>)"
  "session_get leaf_net ''https://down.example/sitemap.xml'' = GetResponse 404 (ParseError [])"
  "session_get leaf_net ''https://gone.example/sitemap.xml'' = GetFailed ''connection failed''"
  by (simp_all add: session_get_def leaf_net_def)

lemma leaf_net_lib:
  "is_iso leaf_net s = (s = ''2024-01-01'')"
  "parse_float leaf_net s = (if s = ''2'' then Some (Finite 2) else None)"
  by (simp_all add: leaf_net_def quiet_net_def)

theorem validate_sitemap_never_raises_witness:
  "(\<exists>V' st'. validate_sitemap (sitemap_fuel leaf_net) leaf_net ''shop.example'' {} tech_init
        = Some (None, V', st')
      \<and> ''Invalid lastmod format in sitemap: yesterday'' \<in> set (sitemap_issues st')
      \<and> ''Invalid priority value in sitemap: 2'' \<in> set (sitemap_issues st'))
   \<and> (\<exists>V' st'. validate_sitemap (sitemap_fuel leaf_net) leaf_net ''down.example'' {} tech_init
        = Some (None, V', st')
      \<and> sitemap_issues st' = [''Sitemap not found at https://down.example/sitemap.xml''])
   \<and> (\<exists>V' st'. validate_sitemap (sitemap_fuel leaf_net) leaf_net ''gone.example'' {} tech_init
        = Some (None, V', st')
      \<and> sitemap_issues st' = [''Error fetching sitemap: connection failed''])"
proof (intro conjI)
  have e: "sitemap_issues tech_init = []" by (simp add: tech_init_def)
  show "\<exists>V' st'. validate_sitemap (sitemap_fuel leaf_net) leaf_net ''shop.example'' {} tech_init
        = Some (None, V', st')
      \<and> ''Invalid lastmod format in sitemap: yesterday'' \<in> set (sitemap_issues st')
      \<and> ''Invalid priority value in sitemap: 2'' \<in> set (sitemap_issues st')"
    using validate_sitemap_never_raises[of leaf_net "''shop.example''" "{}" tech_init]
    by (auto simp add: e sitemap_url_of_def leaf_net_get leaf_net_lib leaf_run replace_Z_def
          simp del: validate_sitemap.simps leaf_loop.simps)
  show "\<exists>V' st'. validate_sitemap (sitemap_fuel leaf_net) leaf_net ''down.example'' {} tech_init
        = Some (None, V', st')
      \<and> sitemap_issues st' = [''Sitemap not found at https://down.example/sitemap.xml'']"
    using validate_sitemap_never_raises[of leaf_net "''down.example''" "{}" tech_init]
    by (auto simp add: e sitemap_url_of_def leaf_net_get simp del: validate_sitemap.simps)
  show "\<exists>V' st'. validate_sitemap (sitemap_fuel leaf_net) leaf_net ''gone.example'' {} tech_init
        = Some (None, V', st')
      \<and> sitemap_issues st' = [''Error fetching sitemap: connection failed'']"
    using validate_sitemap_never_raises[of leaf_net "''gone.example''" "{}" tech_init]
    by (auto simp add: e sitemap_url_of_def leaf_net_get simp del: validate_sitemap.simps)
qed

section \<open>Properties of the page analyzers\<close>

lemma classify_schema_array:
  "classify_schema (JArray items) url f cat = (Some (AttributeError ''object has no attribute get''), f, cat)"
  by (simp add: classify_schema_def get_type_def)

lemma analyze_catalog_array:
  assumes "p_json_ld pg = Json (JArray items) # rest"
  shows "analyze_catalog pg url cat =
    (Inl (AttributeError ''object has no attribute get''), cat\<lparr> json_ld := count_method (json_ld cat) \<rparr>)"
  using assms by (simp add: analyze_catalog_def classify_schema_array)

text \<open>
  Claim C4 fails on the code. For page A with one JSON-LD script that holds an array (of the two
  type names, or of two objects with these types), \<^verbatim>\<open>schema.get("@type", "")\<close> is called on
  the list before \<^verbatim>\<open>isinstance(schema, list)\<close> is tested, and raises AttributeError, which
  \<^verbatim>\<open>except json.JSONDecodeError\<close> does not catch. The exception leaves
  \<^verbatim>\<open>analyze_structured_data\<close>: nothing is filed under Organization or Article, and the
  page-coverage counters are not updated.
\<close>

theorem analyze_structured_data_array_raises:
  "fst array_run = Inl (AttributeError ''object has no attribute get'')
   \<and> schema_types (structured_data (snd array_run)) ''Organization'' = []
   \<and> schema_types (structured_data (snd array_run)) ''Article'' = []
   \<and> pages_with_schema (structured_data (snd array_run)) = 0
   \<and> total_pages (structured_data (snd array_run)) = 0
   \<and> fst object_array_run = Inl (AttributeError ''object has no attribute get'')
   \<and> schema_types (structured_data (snd object_array_run)) ''Organization'' = []
   \<and> schema_types (structured_data (snd object_array_run)) ''Article'' = []
   \<and> pages_with_schema (structured_data (snd object_array_run)) = 0
   \<and> total_pages (structured_data (snd object_array_run)) = 0"
proof -
  have a: "analyze_catalog array_page u cat =
    (Inl (AttributeError ''object has no attribute get''), cat\<lparr> json_ld := count_method (json_ld cat) \<rparr>)"
    for u cat
    by (rule analyze_catalog_array) (simp add: array_page_def)
  have b: "analyze_catalog object_array_page u cat =
    (Inl (AttributeError ''object has no attribute get''), cat\<lparr> json_ld := count_method (json_ld cat) \<rparr>)"
    for u cat
    by (rule analyze_catalog_array) (simp add: object_array_page_def)
  show ?thesis
    by (simp add: array_run_def object_array_run_def analyze_structured_data_def a b
          crawler_init_def catalog_init_def)
qed

lemma add_canonical_issue_simps:
  "idx_canonical_issues (fst (add_canonical_issue k s)) = idx_canonical_issues (fst s) @ [k]"
  "canonical_issues (snd (add_canonical_issue k s)) k' =
     (if k' = k then canonical_issues (snd s) k + 1 else canonical_issues (snd s) k')"
  by (cases s; simp add: add_canonical_issue_def bump_canonical_def)+

lemma robots_block_frame:
  "idx_canonical_issues (fst (robots_block pg idx st)) = idx_canonical_issues idx"
  "canonical_issues (snd (robots_block pg idx st)) = canonical_issues st"
  by (auto simp: robots_block_def bump_issue_def Let_def split: option.splits)

lemma canonical_block_different_url:
  assumes "idx_canonical_issues idx = []"
  shows "(''points_to_different_url'' \<in> set (idx_canonical_issues (fst (canonical_block env pg url idx st)))
           \<longrightarrow> idx_canonical_issues (fst (canonical_block env pg url idx st)) = [''points_to_different_url''])
       \<and> canonical_issues (snd (canonical_block env pg url idx st)) ''points_to_different_url''
           = canonical_issues st ''points_to_different_url''
             + (if idx_canonical_issues (fst (canonical_block env pg url idx st)) = [''points_to_different_url'']
                then 1 else 0)"
  using assms
  by (auto simp: canonical_block_def Let_def add_canonical_issue_simps add_canonical_issue_def
         bump_canonical_def split: option.splits prod.splits)

lemma canonical_block_relative:
  assumes "idx_canonical_issues idx = []" "p_canonical pg = Some c" "c \<noteq> []"
    "\<not> startswith c ''http://''" "\<not> startswith c ''https://''"
  shows "hd (idx_canonical_issues (fst (canonical_block env pg url idx st))) = ''relative_url''
       \<and> ''points_to_different_url'' \<notin> set (idx_canonical_issues (fst (canonical_block env pg url idx st)))
       \<and> canonical_issues (snd (canonical_block env pg url idx st)) ''points_to_different_url''
           = canonical_issues st ''points_to_different_url''
       \<and> (netloc env c = [] \<longrightarrow>
            idx_canonical_issues (fst (canonical_block env pg url idx st)) = [''relative_url''])"
  using assms
  by (auto simp: canonical_block_def Let_def add_canonical_issue_simps add_canonical_issue_def
         bump_canonical_def split: option.splits prod.splits)

text \<open>
  Claim C7. In the result of \<^verbatim>\<open>check_indexability\<close>, the issue "points_to_different_url" is in
  the page's list only when it is the only issue of the list, and its counter grows by 1 exactly
  in that case. A page whose canonical link is \<^verbatim>\<open>/other-page\<close> gets "relative_url" as its
  first issue and never "points_to_different_url"; "relative_url" is its only issue when
  \<^verbatim>\<open>urlparse\<close> finds no network location in \<^verbatim>\<open>/other-page\<close> (as it does).
\<close>

theorem different_url_issue_only_alone:
  "(''points_to_different_url'' \<in> set (idx_canonical_issues (fst (check_indexability env pg url st)))
      \<longrightarrow> idx_canonical_issues (fst (check_indexability env pg url st)) = [''points_to_different_url''])
   \<and> canonical_issues (snd (check_indexability env pg url st)) ''points_to_different_url''
       = canonical_issues st ''points_to_different_url''
         + (if idx_canonical_issues (fst (check_indexability env pg url st)) = [''points_to_different_url'']
            then 1 else 0)
   \<and> (p_canonical pg = Some ''/other-page'' \<longrightarrow>
        hd (idx_canonical_issues (fst (check_indexability env pg url st))) = ''relative_url''
      \<and> ''points_to_different_url'' \<notin> set (idx_canonical_issues (fst (check_indexability env pg url st)))
      \<and> canonical_issues (snd (check_indexability env pg url st)) ''points_to_different_url''
           = canonical_issues st ''points_to_different_url''
      \<and> (netloc env ''/other-page'' = [] \<longrightarrow>
           idx_canonical_issues (fst (check_indexability env pg url st)) = [''relative_url'']))"
proof -
  let ?idx0 = "\<lparr> robots_txt_allowed = is_allowed_by_robots st url,
                   meta_robots = ''index,follow'', canonical = url,
                   canonical_self_referencing = True, noindex_reason = None,
                   idx_canonical_issues = [] \<rparr>"
  let ?idx1 = "fst (robots_block pg ?idx0 st)"
  let ?st1 = "snd (robots_block pg ?idx0 st)"
  have run: "check_indexability env pg url st = canonical_block env pg url ?idx1 ?st1"
    by (simp add: check_indexability_def Let_def split: prod.splits)
  have e: "idx_canonical_issues ?idx1 = []" by (simp add: robots_block_frame)
  have c: "canonical_issues ?st1 = canonical_issues st" by (simp add: robots_block_frame)
  have rel: "\<not> startswith ''/other-page'' ''http://''" "\<not> startswith ''/other-page'' ''https://''"
    by (simp_all add: startswith_def)
  show ?thesis
    unfolding run
    using canonical_block_different_url[OF e, of env pg url ?st1]
      canonical_block_relative[OF e _ _ rel, of pg env url ?st1]
    by (simp add: c)
qed

lemma netloc_of_examples:
  "netloc_of ''/other-page'' = []"
  "netloc_of ''https://example.com/other'' = ''example.com''"
  "netloc_of ''https://example.com/b'' = ''example.com''"
  by (simp_all add: netloc_of_def)

lemma quiet_netloc: "netloc quiet_net = netloc_of" by (simp add: quiet_net_def)

lemma page_bc_fields:
  "p_canonical page_b = Some ''/other-page''" "p_meta_robots page_b = None"
  "p_canonical page_c = Some ''https://example.com/other''" "p_meta_robots page_c = None"
  by (simp_all add: page_b_def page_c_def blank_page_def)

lemma check_indexability_page_c:
  "idx_canonical_issues (fst (check_indexability quiet_net page_c ''https://example.com/b'' crawler_init))
     = [''points_to_different_url'']"
  by (simp add: check_indexability_def Let_def robots_block_def canonical_block_def page_bc_fields
        quiet_netloc netloc_of_examples startswith_def add_canonical_issue_def)

theorem different_url_issue_only_alone_witness:
  "idx_canonical_issues (fst (check_indexability quiet_net page_b ''https://example.com/b'' crawler_init))
     = [''relative_url'']
   \<and> canonical_issues (snd (check_indexability quiet_net page_b ''https://example.com/b'' crawler_init))
        ''points_to_different_url'' = 0
   \<and> ''points_to_different_url''
        \<in> set (idx_canonical_issues (fst (check_indexability quiet_net page_c ''https://example.com/b'' crawler_init)))
   \<and> canonical_issues (snd (check_indexability quiet_net page_c ''https://example.com/b'' crawler_init))
        ''points_to_different_url'' = 1"
proof -
  have z: "canonical_issues crawler_init ''points_to_different_url'' = 0"
    by (simp add: crawler_init_def)
  note b = different_url_issue_only_alone[of quiet_net page_b "''https://example.com/b''" crawler_init]
  note c = different_url_issue_only_alone[of quiet_net page_c "''https://example.com/b''" crawler_init]
  from b have b3: "p_canonical page_b = Some ''/other-page'' \<longrightarrow>
        hd (idx_canonical_issues (fst (check_indexability quiet_net page_b ''https://example.com/b'' crawler_init))) = ''relative_url''
      \<and> ''points_to_different_url'' \<notin> set (idx_canonical_issues (fst (check_indexability quiet_net page_b ''https://example.com/b'' crawler_init)))
      \<and> canonical_issues (snd (check_indexability quiet_net page_b ''https://example.com/b'' crawler_init)) ''points_to_different_url''
           = canonical_issues crawler_init ''points_to_different_url''
      \<and> (netloc quiet_net ''/other-page'' = [] \<longrightarrow>
           idx_canonical_issues (fst (check_indexability quiet_net page_b ''https://example.com/b'' crawler_init)) = [''relative_url''])"
    by (rule conjunct2[THEN conjunct2])
  have n: "netloc quiet_net ''/other-page'' = []" by (simp only: quiet_netloc netloc_of_examples)
  from b3 page_bc_fields(1) n z
  have 1: "idx_canonical_issues (fst (check_indexability quiet_net page_b ''https://example.com/b'' crawler_init))
     = [''relative_url'']"
    and 2: "canonical_issues (snd (check_indexability quiet_net page_b ''https://example.com/b'' crawler_init))
        ''points_to_different_url'' = 0"
    by simp_all
  from c have c2: "canonical_issues (snd (check_indexability quiet_net page_c ''https://example.com/b'' crawler_init)) ''points_to_different_url''
       = canonical_issues crawler_init ''points_to_different_url''
         + (if idx_canonical_issues (fst (check_indexability quiet_net page_c ''https://example.com/b'' crawler_init)) = [''points_to_different_url'']
            then 1 else 0)"
    by (rule conjunct2[THEN conjunct1])
  have 3: "''points_to_different_url''
        \<in> set (idx_canonical_issues (fst (check_indexability quiet_net page_c ''https://example.com/b'' crawler_init)))"
    by (simp only: check_indexability_page_c) simp
  have 4: "canonical_issues (snd (check_indexability quiet_net page_c ''https://example.com/b'' crawler_init))
        ''points_to_different_url'' = 1"
    using c2 by (simp only: check_indexability_page_c z) simp
  from 1 2 3 4 show ?thesis by blast
qed

lemma bump_issue_frame [simp]:
  "title_tracking (bump_issue k st) = title_tracking st"
  "crawl_issues (bump_issue k st) k' = (if k' = k then crawl_issues st k + 1 else crawl_issues st k')"
  by (simp_all add: bump_issue_def)

lemma analyze_structured_data_frame:
  "title_tracking (snd (analyze_structured_data pg url st)) = title_tracking st"
  "crawl_issues (snd (analyze_structured_data pg url st)) = crawl_issues st"
  by (simp_all add: analyze_structured_data_def split: prod.splits)

lemma images_loop_frame:
  "title_tracking (images_loop imgs st) = title_tracking st
   \<and> crawl_issues (images_loop imgs st) ''duplicate_titles'' = crawl_issues st ''duplicate_titles''"
  by (induction imgs st rule: images_loop.induct) simp_all

lemma description_block_frame:
  "title_tracking (snd (description_block pg url st)) = title_tracking st
   \<and> crawl_issues (snd (description_block pg url st)) ''duplicate_titles'' = crawl_issues st ''duplicate_titles''"
  by (simp add: description_block_def track_description_def split: option.splits)

lemma headings_block_frame:
  "title_tracking (snd (headings_block pg st)) = title_tracking st
   \<and> crawl_issues (snd (headings_block pg st)) ''duplicate_titles'' = crawl_issues st ''duplicate_titles''"
  by (simp add: headings_block_def)

lemma content_block_frame:
  "title_tracking (snd (content_block env pg url st)) = title_tracking st
   \<and> crawl_issues (snd (content_block env pg url st)) ''duplicate_titles'' = crawl_issues st ''duplicate_titles''"
  by (simp add: content_block_def track_content_def split: option.splits)

lemma after_title_frame:
  assumes "analyze_structured_data pg url st = (Inr sd, st1)"
    and "title_block pg url st1 = (Inr t, st2)"
  shows "\<exists>md st'. extract_metadata env pg url st = (Inr md, st') \<and> title_tag md = t
     \<and> title_tracking st' = title_tracking st2
     \<and> crawl_issues st' ''duplicate_titles'' = crawl_issues st2 ''duplicate_titles''"
proof -
  obtain d s3 where d: "description_block pg url st2 = (d, s3)" by (cases "description_block pg url st2")
  obtain h s4 where h: "headings_block pg s3 = (h, s4)" by (cases "headings_block pg s3")
  obtain g s6 where g: "content_block env pg url (images_loop (p_images pg) s4) = (g, s6)"
    by (cases "content_block env pg url (images_loop (p_images pg) s4)")
  have f3: "title_tracking s3 = title_tracking st2
     \<and> crawl_issues s3 ''duplicate_titles'' = crawl_issues st2 ''duplicate_titles''"
    using description_block_frame[of pg url st2] d by simp
  have f4: "title_tracking s4 = title_tracking s3
     \<and> crawl_issues s4 ''duplicate_titles'' = crawl_issues s3 ''duplicate_titles''"
    using headings_block_frame[of pg s3] h by simp
  have f6: "title_tracking s6 = title_tracking (images_loop (p_images pg) s4)
     \<and> crawl_issues s6 ''duplicate_titles'' = crawl_issues (images_loop (p_images pg) s4) ''duplicate_titles''"
    using content_block_frame[of env pg url "images_loop (p_images pg) s4"] g by simp
  have "extract_metadata env pg url st
      = (Inr \<lparr> title_tag = t, meta_description = d, h_tags = h,
                          images = p_images pg, md_structured_data = sd,
                          flesch_kincaid_grade = g \<rparr>, s6)"
    using assms d h g by (simp add: extract_metadata_def)
  moreover have "title_tracking s6 = title_tracking st2"
    using f3 f4 f6 images_loop_frame[of "p_images pg" s4] by simp
  moreover have "crawl_issues s6 ''duplicate_titles'' = crawl_issues st2 ''duplicate_titles''"
    using f3 f4 f6 images_loop_frame[of "p_images pg" s4] by simp
  ultimately show ?thesis by simp
qed

text \<open>
  The title block on its own: when the structured-data analysis, which
  \<^verbatim>\<open>extract_metadata\<close> runs first, raises nothing and the stripped title of the page is
  already in the title tracker, \<^verbatim>\<open>extract_metadata\<close> returns the metadata, the counter
  "duplicate_titles" grows by exactly 1, the URL is appended to the tracker entry of the
  title, and the entries of all other titles are unchanged.
\<close>

lemma title_counted_when_analysis_returns:
  assumes "analyze_structured_data pg url st = (Inr sd, st1)"
    and "p_title pg = Some (Some raw)"
    and "title_tracking st (strip raw) = Some urls"
  shows "\<exists>md st'. extract_metadata env pg url st = (Inr md, st')
     \<and> title_tag md = strip raw
     \<and> crawl_issues st' ''duplicate_titles'' = crawl_issues st ''duplicate_titles'' + 1
     \<and> title_tracking st' (strip raw) = Some (urls @ [url])
     \<and> (\<forall>t. t \<noteq> strip raw \<longrightarrow> title_tracking st' t = title_tracking st t)"
proof -
  have t1: "title_tracking st1 = title_tracking st" and c1: "crawl_issues st1 = crawl_issues st"
    using analyze_structured_data_frame[of pg url st] assms(1) by simp_all
  let ?st2 = "track_title (strip raw) url st1"
  have tb: "title_block pg url st1 = (Inr (strip raw), ?st2)"
    using assms(2) by (simp add: title_block_def)
  have tr: "title_tracking ?st2 = (title_tracking st)(strip raw := Some (urls @ [url]))"
    using assms(3) t1 by (simp add: track_title_def)
  have ci: "crawl_issues ?st2 ''duplicate_titles'' = crawl_issues st ''duplicate_titles'' + 1"
    using assms(3) t1 c1 by (simp add: track_title_def)
  from after_title_frame[OF assms(1) tb, of env] obtain md st' where
    "extract_metadata env pg url st = (Inr md, st')" "title_tag md = strip raw"
    "title_tracking st' = title_tracking ?st2"
    "crawl_issues st' ''duplicate_titles'' = crawl_issues ?st2 ''duplicate_titles''" by blast
  with tr ci show ?thesis by simp
qed

lemma strip_home: "strip ''Home'' = ''Home''" "strip ''Home '' = ''Home''"
  by (simp_all add: strip_def is_space_def)

lemma blank_analyze:
  assumes "p_json_ld pg = []" "p_microdata pg = []" "p_rdfa pg = []"
  shows "analyze_structured_data pg url st =
     (Inr findings_init, st\<lparr> structured_data := page_coverage url findings_init (structured_data st) \<rparr>)"
  using assms by (simp add: analyze_structured_data_def analyze_catalog_def)

lemma home_fields:
  "p_json_ld home_page = []" "p_microdata home_page = []" "p_rdfa home_page = []"
  "p_json_ld home_copy = []" "p_microdata home_copy = []" "p_rdfa home_copy = []"
  "p_title home_page = Some (Some ''Home'')" "p_title home_copy = Some (Some ''Home '')"
  by (simp_all add: home_page_def home_copy_def blank_page_def)

lemma after_home_tracking:
  "title_tracking after_home ''Home'' = Some [''https://example.com/'']"
  "crawl_issues after_home ''duplicate_titles'' = 0"
proof -
  let ?st1 = "crawler_init\<lparr> structured_data := page_coverage ''https://example.com/'' findings_init (structured_data crawler_init) \<rparr>"
  have a: "analyze_structured_data home_page ''https://example.com/'' crawler_init = (Inr findings_init, ?st1)"
    by (rule blank_analyze) (simp_all add: home_fields)
  have n: "title_tracking ?st1 ''Home'' = None" by (simp add: crawler_init_def)
  let ?st2 = "?st1\<lparr> title_tracking := (title_tracking ?st1)(''Home'' := Some [''https://example.com/'']) \<rparr>"
  have t: "title_block home_page ''https://example.com/'' ?st1 = (Inr ''Home'', ?st2)"
    using n by (simp add: title_block_def home_fields strip_home track_title_def)
  from after_title_frame[OF a t, of quiet_net] obtain md st' where
    e: "extract_metadata quiet_net home_page ''https://example.com/'' crawler_init = (Inr md, st')"
    and tt: "title_tracking st' = title_tracking ?st2"
    and ci: "crawl_issues st' ''duplicate_titles'' = crawl_issues ?st2 ''duplicate_titles''" by blast
  from e have s: "after_home = st'" by (simp add: after_home_def)
  show "title_tracking after_home ''Home'' = Some [''https://example.com/'']"
    unfolding s tt by simp
  show "crawl_issues after_home ''duplicate_titles'' = 0"
    unfolding s ci by (simp add: crawler_init_def)
qed

lemma home_copy_counted:
  "\<exists>md st'. extract_metadata quiet_net home_copy ''https://example.com/index.html'' after_home = (Inr md, st')
     \<and> title_tag md = ''Home''
     \<and> crawl_issues st' ''duplicate_titles'' = 1
     \<and> title_tracking st' ''Home'' = Some [''https://example.com/'', ''https://example.com/index.html'']"
proof -
  have a: "analyze_structured_data home_copy ''https://example.com/index.html'' after_home =
     (Inr findings_init, after_home\<lparr> structured_data :=
          page_coverage ''https://example.com/index.html'' findings_init (structured_data after_home) \<rparr>)"
    by (rule blank_analyze) (simp_all add: home_fields)
  have t: "title_tracking after_home (strip ''Home '') = Some [''https://example.com/'']"
    by (simp only: strip_home after_home_tracking)
  from title_counted_when_analysis_returns[OF a home_fields(8) t, of quiet_net]
  have "\<exists>md st'. extract_metadata quiet_net home_copy ''https://example.com/index.html'' after_home = (Inr md, st')
     \<and> title_tag md = ''Home''
     \<and> crawl_issues st' ''duplicate_titles'' = 1
     \<and> title_tracking st' ''Home'' = Some [''https://example.com/'', ''https://example.com/index.html'']
     \<and> (\<forall>t. t \<noteq> ''Home'' \<longrightarrow> title_tracking st' t = title_tracking after_home t)"
    by (simp add: strip_home after_home_tracking)
  then show ?thesis by blast
qed

text \<open>
  Claim C8 fails on the code. The title "Home" was seen at one URL before. A second page with
  the same title and a JSON-LD script that holds an array of two schemas is given to
  \<^verbatim>\<open>extract_metadata\<close>: the dictionary literal at its start calls
  \<^verbatim>\<open>analyze_structured_data\<close>, which raises AttributeError on the array (the defect of
  claim C4), so \<^verbatim>\<open>extract_metadata\<close> is left before the title is read. The counter
  "duplicate_titles" stays at 0 and the URL is not appended to the tracker entry of "Home".
\<close>

theorem duplicate_title_lost_on_array_page:
  "p_title home_array_page = Some (Some ''Home'')
   \<and> title_tracking after_home ''Home'' = Some [''https://example.com/'']
   \<and> crawl_issues after_home ''duplicate_titles'' = 0
   \<and> fst home_array_run = Inl (AttributeError ''object has no attribute get'')
   \<and> crawl_issues (snd home_array_run) ''duplicate_titles'' = 0
   \<and> title_tracking (snd home_array_run) ''Home'' = Some [''https://example.com/'']"
proof -
  let ?cat = "(structured_data after_home)\<lparr> json_ld := count_method (json_ld (structured_data after_home)) \<rparr>"
  have t: "p_title home_array_page = Some (Some ''Home'')"
    by (simp add: home_array_page_def home_page_def)
  have "analyze_catalog home_array_page ''https://example.com/index.html'' (structured_data after_home)
      = (Inl (AttributeError ''object has no attribute get''), ?cat)"
    by (rule analyze_catalog_array) (simp add: home_array_page_def)
  then have "analyze_structured_data home_array_page ''https://example.com/index.html'' after_home
      = (Inl (AttributeError ''object has no attribute get''), after_home\<lparr> structured_data := ?cat \<rparr>)"
    by (simp add: analyze_structured_data_def)
  then have r: "home_array_run
      = (Inl (AttributeError ''object has no attribute get''), after_home\<lparr> structured_data := ?cat \<rparr>)"
    by (simp add: home_array_run_def extract_metadata_def)
  show ?thesis unfolding r using t by (simp add: after_home_tracking)
qed

section \<open>The crawl\<close>

subsection \<open>What the page analysis leaves untouched\<close>

text \<open>
  Metadata extraction, the indexability check and the robots.txt request do not write the
  link graph, the depths, the orphan set or the log of page loads.
\<close>

lemma gv_bump_issue [simp]: "graph_view (bump_issue k st) = graph_view st"
  by (simp add: graph_view_def bump_issue_def)

lemma gv_bump_canonical [simp]: "graph_view (bump_canonical k st) = graph_view st"
  by (simp add: graph_view_def bump_canonical_def)

lemma gv_updates [simp]:
  "graph_view (st\<lparr> title_tracking := a \<rparr>) = graph_view st"
  "graph_view (st\<lparr> meta_desc_tracking := b \<rparr>) = graph_view st"
  "graph_view (st\<lparr> content_tracking := c \<rparr>) = graph_view st"
  "graph_view (st\<lparr> structured_data := d \<rparr>) = graph_view st"
  "graph_view (st\<lparr> robots_txt_content := e \<rparr>) = graph_view st"
  "graph_view (st\<lparr> technical_analyzer := f \<rparr>) = graph_view st"
  by (simp_all add: graph_view_def)

lemma gv_track [simp]:
  "graph_view (track_title t url st) = graph_view st"
  "graph_view (track_description t url st) = graph_view st"
  "graph_view (track_content h url st) = graph_view st"
  by (simp_all add: track_title_def track_description_def track_content_def split: option.splits)

lemma gv_images_loop [simp]: "graph_view (images_loop imgs st) = graph_view st"
  by (induction imgs st rule: images_loop.induct) simp_all

lemma gv_analyze_structured_data [simp]:
  "graph_view (snd (analyze_structured_data pg url st)) = graph_view st"
  by (simp add: analyze_structured_data_def split: prod.splits)

lemma gv_title_block [simp]: "graph_view (snd (title_block pg url st)) = graph_view st"
  by (simp add: title_block_def split: option.splits)

lemma gv_description_block [simp]: "graph_view (snd (description_block pg url st)) = graph_view st"
  by (simp add: description_block_def split: option.splits)

lemma gv_headings_block [simp]: "graph_view (snd (headings_block pg st)) = graph_view st"
  by (simp add: headings_block_def)

lemma gv_content_block [simp]: "graph_view (snd (content_block env pg url st)) = graph_view st"
  by (simp add: content_block_def split: option.splits)

lemma gv_extract_metadata [simp]: "graph_view (snd (extract_metadata env pg url st)) = graph_view st"
proof -
  obtain r1 s1 where a: "analyze_structured_data pg url st = (r1, s1)"
    by (cases "analyze_structured_data pg url st")
  have g1: "graph_view s1 = graph_view st" using gv_analyze_structured_data[of pg url st] a by simp
  show ?thesis
  proof (cases r1)
    case (Inl e)
    with a g1 show ?thesis by (simp add: extract_metadata_def)
  next
    case (Inr sd)
    obtain r2 s2 where t: "title_block pg url s1 = (r2, s2)" by (cases "title_block pg url s1")
    have g2: "graph_view s2 = graph_view s1" using gv_title_block[of pg url s1] t by simp
    show ?thesis
    proof (cases r2)
      case (Inl e)
      with a Inr t g1 g2 show ?thesis by (simp add: extract_metadata_def)
    next
      case r2: (Inr title)
      obtain d s3 where d: "description_block pg url s2 = (d, s3)" by (cases "description_block pg url s2")
      obtain h s4 where h: "headings_block pg s3 = (h, s4)" by (cases "headings_block pg s3")
      obtain g s6 where g: "content_block env pg url (images_loop (p_images pg) s4) = (g, s6)"
        by (cases "content_block env pg url (images_loop (p_images pg) s4)")
      have g3: "graph_view s3 = graph_view s2" using gv_description_block[of pg url s2] d by simp
      have g4: "graph_view s4 = graph_view s3" using gv_headings_block[of pg s3] h by simp
      have g6: "graph_view s6 = graph_view s4"
        using gv_content_block[of env pg url "images_loop (p_images pg) s4"] g by simp
      have "snd (extract_metadata env pg url st) = s6"
        using a Inr t r2 d h g by (simp add: extract_metadata_def)
      with g1 g2 g3 g4 g6 show ?thesis by simp
    qed
  qed
qed

lemma gv_robots_block [simp]: "graph_view (snd (robots_block pg idx st)) = graph_view st"
  by (simp add: robots_block_def Let_def split: option.splits)

lemma gv_add_canonical_issue [simp]:
  "graph_view (snd (add_canonical_issue k s)) = graph_view (snd s)"
  by (cases s) (simp add: add_canonical_issue_def)

lemma gv_canonical_block [simp]:
  "graph_view (snd (canonical_block env pg url idx st)) = graph_view st"
  by (simp add: canonical_block_def Let_def split_beta)

lemma gv_check_indexability [simp]:
  "graph_view (snd (check_indexability env pg url st)) = graph_view st"
  by (simp add: check_indexability_def Let_def split_beta)

lemma gv_get_robots_txt [simp]: "graph_view (get_robots_txt env b st) = graph_view st"
  by (simp add: get_robots_txt_def split: option.splits)

lemma gv_fields:
  assumes "graph_view a = graph_view b"
  shows "internal_links a = internal_links b" "inbound_links a = inbound_links b"
    "page_depths a = page_depths b" "orphan_pages a = orphan_pages b" "fetch_log a = fetch_log b"
  using assms by (simp_all add: graph_view_def)
subsection \<open>The link graph after each step\<close>

text \<open>
  \<^verbatim>\<open>identify_orphan_pages\<close> adds the keys of \<^verbatim>\<open>internal_links\<close> that have no inbound
  link and removes nothing.
\<close>

lemma orphan_fold_frame:
  "internal_links (fold (\<lambda>page s. if inbound_links s page = {}
                     then s\<lparr> orphan_pages := insert page (orphan_pages s) \<rparr> else s) ps st) = internal_links st
   \<and> inbound_links (fold (\<lambda>page s. if inbound_links s page = {}
                     then s\<lparr> orphan_pages := insert page (orphan_pages s) \<rparr> else s) ps st) = inbound_links st
   \<and> page_depths (fold (\<lambda>page s. if inbound_links s page = {}
                     then s\<lparr> orphan_pages := insert page (orphan_pages s) \<rparr> else s) ps st) = page_depths st
   \<and> fetch_log (fold (\<lambda>page s. if inbound_links s page = {}
                     then s\<lparr> orphan_pages := insert page (orphan_pages s) \<rparr> else s) ps st) = fetch_log st
   \<and> orphan_pages (fold (\<lambda>page s. if inbound_links s page = {}
                     then s\<lparr> orphan_pages := insert page (orphan_pages s) \<rparr> else s) ps st)
       = orphan_pages st \<union> {p \<in> set ps. inbound_links st p = {}}"
proof (induction ps arbitrary: st)
  case Nil
  show ?case by simp
next
  case (Cons p ps)
  show ?case
  proof (cases "inbound_links st p = {}")
    case True
    with Cons[of "st\<lparr> orphan_pages := insert p (orphan_pages st) \<rparr>"] show ?thesis by auto
  next
    case False
    with Cons[of st] show ?thesis by auto
  qed
qed

lemma identify_orphan_pages_fields:
  "internal_links (identify_orphan_pages st) = internal_links st"
  "inbound_links (identify_orphan_pages st) = inbound_links st"
  "page_depths (identify_orphan_pages st) = page_depths st"
  "fetch_log (identify_orphan_pages st) = fetch_log st"
  "orphan_pages (identify_orphan_pages st)
     = orphan_pages st \<union> {p \<in> fst ` set (internal_links st). inbound_links st p = {}}"
  using orphan_fold_frame[of "map fst (internal_links st)" st]
  by (simp_all add: identify_orphan_pages_def)

lemma touch_links_fields:
  "internal_links (touch_links url st) = dict_set url (links_of st url) (internal_links st)"
  "inbound_links (touch_links url st) = inbound_links st"
  "page_depths (touch_links url st) = page_depths st"
  "fetch_log (touch_links url st) = fetch_log st"
  "orphan_pages (touch_links url st) = orphan_pages st"
  by (simp_all add: touch_links_def)

lemma add_link_fields:
  "internal_links (add_link url a st) = dict_set url (insert a (links_of st url)) (internal_links st)"
  "inbound_links (add_link url a st) = (inbound_links st)(a := insert url (inbound_links st a))"
  "page_depths (add_link url a st) = page_depths st"
  "fetch_log (add_link url a st) = fetch_log st"
  "orphan_pages (add_link url a st) = orphan_pages st"
  by (simp_all add: add_link_def)

lemma note_depth_fields:
  "internal_links (note_depth a d st) = internal_links st"
  "inbound_links (note_depth a d st) = inbound_links st"
  "page_depths (note_depth a d st)
     = (if page_depths st a = None then (page_depths st)(a := Some d) else page_depths st)"
  "fetch_log (note_depth a d st) = fetch_log st"
  "orphan_pages (note_depth a d st) = orphan_pages st"
  by (simp_all add: note_depth_def)

lemma after_fetch_fields:
  "internal_links (after_fetch env url st) = internal_links st"
  "inbound_links (after_fetch env url st) = inbound_links st"
  "page_depths (after_fetch env url st) = page_depths st"
  "fetch_log (after_fetch env url st) = fetch_log st @ [url]"
  "orphan_pages (after_fetch env url st) = orphan_pages st"
  using gv_fields[OF gv_get_robots_txt[of env "url_scheme env url @ ''://'' @ netloc env url" st]]
  by (simp_all add: after_fetch_def Let_def)

lemma pre_links_fields:
  "internal_links (pre_links env pg url st) = internal_links st"
  "inbound_links (pre_links env pg url st) = inbound_links st"
  "page_depths (pre_links env pg url st) = page_depths st"
  "fetch_log (pre_links env pg url st) = fetch_log st @ [url]"
  "orphan_pages (pre_links env pg url st) = orphan_pages st"
proof -
  have "graph_view (pre_links env pg url st) = graph_view (after_fetch env url st)"
    by (simp add: pre_links_def)
  from gv_fields[OF this] show
    "internal_links (pre_links env pg url st) = internal_links st"
    "inbound_links (pre_links env pg url st) = inbound_links st"
    "page_depths (pre_links env pg url st) = page_depths st"
    "fetch_log (pre_links env pg url st) = fetch_log st @ [url]"
    "orphan_pages (pre_links env pg url st) = orphan_pages st"
    by (simp_all add: after_fetch_fields)
qed

lemma probed_fields:
  "internal_links (probed env pg url V st) = internal_links st"
  "inbound_links (probed env pg url V st) = inbound_links st"
  "page_depths (probed env pg url V st) = page_depths st"
  "fetch_log (probed env pg url V st) = fetch_log st"
  "orphan_pages (probed env pg url V st) = orphan_pages st"
  by (simp_all add: probed_def)

lemma links_of_probed: "links_of (probed env pg url V st) u = links_of st u"
  by (simp add: links_of_def probed_fields)

lemma post_links_fields:
  "internal_links (post_links env pg url V st) = dict_set url (links_of st url) (internal_links st)"
  "inbound_links (post_links env pg url V st) = inbound_links st"
  "page_depths (post_links env pg url V st) = page_depths st"
  "fetch_log (post_links env pg url V st) = fetch_log st"
  "orphan_pages (post_links env pg url V st)
     = orphan_pages st \<union> {p \<in> fst ` set (dict_set url (links_of st url) (internal_links st)).
                               inbound_links st p = {}}"
  by (simp_all add: post_links_def identify_orphan_pages_fields touch_links_fields probed_fields
        links_of_probed)

text \<open>
  \<^verbatim>\<open>extract_metadata\<close> raises nothing on a page without JSON-LD whose title tag, when
  there is one, has a string.
\<close>

lemma analyze_no_json_ld:
  "p_json_ld pg = [] \<Longrightarrow> \<exists>sd. fst (analyze_structured_data pg url st) = Inr sd"
  by (simp add: analyze_structured_data_def analyze_catalog_def Let_def split_beta)

lemma extract_metadata_returns:
  assumes "p_json_ld pg = []" "p_title pg \<noteq> Some None"
  shows "\<exists>md. fst (extract_metadata env pg url st) = Inr md"
proof -
  from analyze_no_json_ld[OF assms(1), of url st] obtain sd s1 where
    a: "analyze_structured_data pg url st = (Inr sd, s1)"
    by (cases "analyze_structured_data pg url st") auto
  have "\<exists>t s2. title_block pg url s1 = (Inr t, s2)"
  proof (cases "p_title pg")
    case None
    then show ?thesis by (simp add: title_block_def)
  next
    case (Some o1)
    with assms(2) obtain s where "o1 = Some s" by (cases o1) auto
    with Some show ?thesis by (simp add: title_block_def)
  qed
  then obtain t s2 where t: "title_block pg url s1 = (Inr t, s2)" by blast
  from after_title_frame[OF a t, of env] show ?thesis by auto
qed

text \<open>
  One call of \<^verbatim>\<open>crawl_site\<close> up to the loop over the linked pages, on such a page: the
  sitemap validation returns, so the outcome is decided by the link analysis alone.
\<close>

lemma crawl_page_eq:
  assumes "page_source env url (count_list (fetch_log st) url) = Some pg"
    and "p_json_ld pg = []" "p_title pg \<noteq> Some None"
  shows "crawl_page n env url V st =
     (case analyze_internal_links n env url (pre_links env pg url st) of
        None \<Rightarrow> None
      | Some (V', st6) \<Rightarrow>
          Some (Analyzed (page_result env pg url V st st6)
                  (fst (page_links_loop env url (netloc env url) (p_links pg) V []
                          (technical_analyzer st6))),
                post_links env pg url V st6))"
proof -
  let ?st1 = "get_robots_txt env (url_scheme env url @ ''://'' @ netloc env url) st"
  from validate_sitemap_total[of env "sitemap_fuel env" "netloc env url" "{}" "technical_analyzer ?st1"]
  obtain V' t where v: "validate_sitemap (sitemap_fuel env) env (netloc env url) {} (technical_analyzer ?st1)
      = Some (None, V', t)" by (auto simp: sitemap_fuel_def)
  have fl: "fetch_log ?st1 = fetch_log st" by (rule gv_fields[OF gv_get_robots_txt])
  let ?st3 = "after_fetch env url st"
  have st3: "?st3 = ?st1\<lparr> technical_analyzer := t, fetch_log := fetch_log ?st1 @ [url] \<rparr>"
    using v by (simp add: after_fetch_def Let_def)
  from extract_metadata_returns[OF assms(2,3), of env url ?st3] obtain md s4 where
    e: "extract_metadata env pg url ?st3 = (Inr md, s4)"
    by (cases "extract_metadata env pg url ?st3") auto
  have content: "get_page_content env url (?st1\<lparr> technical_analyzer := t \<rparr>) = (Some pg, ?st3)"
    using assms(1) fl by (simp add: get_page_content_def st3)
  show ?thesis
    unfolding crawl_page_def Let_def
    apply (simp only: v option.case prod.case content)
    apply (simp only: e sum.case prod.case)
    apply (simp add: pre_links_def page_result_def post_links_def probed_def e
        get_page_linking_metrics_def get_linking_metrics_def Let_def split_beta
        split: option.splits)
    done
qed

lemma page_result_sel:
  "analyzed_url (page_result env pg url V st st6) = url"
  "linked_pages (page_result env pg url V st st6) = []"
  by (simp_all add: page_result_def split: prod.splits sum.splits)

lemma page_result_metrics:
  assumes "p_json_ld pg = []" "p_title pg \<noteq> Some None"
  shows "map_option (link_depth \<circ> pi_linking_metrics) (page_info (page_result env pg url V st st6))
       = Some (case page_depths st6 url of None \<Rightarrow> - 1 | Some d \<Rightarrow> int d)"
    and "map_option lm_orphan_pages (linking (page_result env pg url V st st6))
       = Some (orphan_pages (post_links env pg url V st6))"
proof -
  from extract_metadata_returns[OF assms, of env url "after_fetch env url st"] obtain md s4 where
    e: "extract_metadata env pg url (after_fetch env url st) = (Inr md, s4)"
    by (cases "extract_metadata env pg url (after_fetch env url st)") auto
  show "map_option (link_depth \<circ> pi_linking_metrics) (page_info (page_result env pg url V st st6))
       = Some (case page_depths st6 url of None \<Rightarrow> - 1 | Some d \<Rightarrow> int d)"
    by (simp add: page_result_def e get_page_linking_metrics_def probed_fields)
  show "map_option lm_orphan_pages (linking (page_result env pg url V st st6))
       = Some (orphan_pages (post_links env pg url V st6))"
    by (simp add: page_result_def e get_linking_metrics_def post_links_def Let_def)
qed

lemma with_linked_pages_sel:
  "analyzed_url (with_linked_pages rs r) = analyzed_url r"
  "linked_pages (with_linked_pages rs r) = linked_pages r @ rs"
  "page_info (with_linked_pages rs r) = page_info r"
  "linking (with_linked_pages rs r) = linking r"
  by (simp_all add: with_linked_pages_def)

subsection \<open>Two concrete sites\<close>

lemma url_distinct [simp]:
  "url_seed \<noteq> url_a" "url_a \<noteq> url_seed" "url_seed \<noteq> url_b" "url_b \<noteq> url_seed"
  "url_seed \<noteq> url_c" "url_c \<noteq> url_seed" "url_a \<noteq> url_b" "url_b \<noteq> url_a"
  "url_a \<noteq> url_c" "url_c \<noteq> url_a" "url_b \<noteq> url_c" "url_c \<noteq> url_b"
  by (simp_all add: url_seed_def url_a_def url_b_def url_c_def)

lemma url_parts [simp]:
  "netloc_of url_seed = ''example.com''" "netloc_of url_a = ''example.com''"
  "netloc_of url_b = ''example.com''" "netloc_of url_c = ''example.com''"
  "scheme_of url_seed = ''https''" "scheme_of url_a = ''https''"
  "scheme_of url_b = ''https''" "scheme_of url_c = ''https''"
  by (simp_all add: url_seed_def url_a_def url_b_def url_c_def netloc_of_def scheme_of_def)

lemma https_kept [simp]: "\<not> skipped_scheme ''https''"
  by (simp add: skipped_scheme_def startswith_def)

lemma link_page_fields [simp]:
  "p_links (link_page hs) = hs" "p_json_ld (link_page hs) = []" "p_title (link_page hs) = None"
  by (simp_all add: link_page_def blank_page_def)

lemma site_lib [simp]:
  "netloc flaky_site = netloc_of" "url_scheme flaky_site = scheme_of" "urljoin flaky_site b h = Some h"
  "netloc chain_net = netloc_of" "url_scheme chain_net = scheme_of" "urljoin chain_net b h = Some h"
  by (simp_all add: flaky_site_def chain_net_def quiet_net_def)

lemma flaky_source [simp]:
  "page_source flaky_site url_seed k = Some (link_page [url_a])"
  "page_source flaky_site url_a 0 = None"
  "page_source flaky_site url_a (Suc k) = Some (link_page [url_seed])"
  by (simp_all add: flaky_site_def)

lemma chain_source [simp]:
  "page_source chain_net url_seed k = Some (link_page [url_a])"
  "page_source chain_net url_a k = Some (link_page [url_b])"
  "page_source chain_net url_b k = Some (link_page [url_c])"
  "page_source chain_net url_c k = Some (link_page [])"
  by (simp_all add: chain_net_def)

lemma orphan_pages_identify:
  "orphan_pages (identify_orphan_pages st)
     = orphan_pages st \<union> set (filter (\<lambda>p. inbound_links st p = {}) (map fst (internal_links st)))"
  by (auto simp: identify_orphan_pages_fields)

lemma orphan_pages_post_links:
  "orphan_pages (post_links env pg url V st)
     = orphan_pages st \<union> set (filter (\<lambda>p. inbound_links st p = {})
                                 (map fst (dict_set url (links_of st url) (internal_links st))))"
  by (auto simp: post_links_fields)

lemmas graph_fields =
  add_link_fields note_depth_fields pre_links_fields after_fetch_fields
  post_links_fields(1-4) orphan_pages_post_links

lemma crawler_init_fields [simp]:
  "internal_links crawler_init = []" "inbound_links crawler_init = (\<lambda>_. {})"
  "page_depths crawler_init = (\<lambda>_. None)" "orphan_pages crawler_init = {}"
  "fetch_log crawler_init = []"
  by (simp_all add: crawler_init_def)

lemma flaky_page_seed:
  "crawl_page n flaky_site url_seed V st =
     (case analyze_internal_links n flaky_site url_seed (pre_links flaky_site (link_page [url_a]) url_seed st) of
        None \<Rightarrow> None
      | Some (V', st6) \<Rightarrow>
          Some (Analyzed (page_result flaky_site (link_page [url_a]) url_seed V st st6)
                  (fst (page_links_loop flaky_site url_seed (netloc flaky_site url_seed)
                          (p_links (link_page [url_a])) V [] (technical_analyzer st6))),
                post_links flaky_site (link_page [url_a]) url_seed V st6))"
  by (rule crawl_page_eq) simp_all

lemma flaky_page_a:
  "count_list (fetch_log st) url_a = Suc k \<Longrightarrow>
   crawl_page n flaky_site url_a V st =
     (case analyze_internal_links n flaky_site url_a (pre_links flaky_site (link_page [url_seed]) url_a st) of
        None \<Rightarrow> None
      | Some (V', st6) \<Rightarrow>
          Some (Analyzed (page_result flaky_site (link_page [url_seed]) url_a V st st6)
                  (fst (page_links_loop flaky_site url_a (netloc flaky_site url_a)
                          (p_links (link_page [url_seed])) V [] (technical_analyzer st6))),
                post_links flaky_site (link_page [url_seed]) url_a V st6))"
  by (rule crawl_page_eq) simp_all

lemma count_list_snoc [simp]:
  "count_list (xs @ [y]) x = count_list xs x + (if x = y then 1 else 0)"
  by (induction xs) auto

lemma chain_page_seed:
  "crawl_page n chain_net url_seed V st =
     (case analyze_internal_links n chain_net url_seed (pre_links chain_net (link_page [url_a]) url_seed st) of
        None \<Rightarrow> None
      | Some (V', st6) \<Rightarrow>
          Some (Analyzed (page_result chain_net (link_page [url_a]) url_seed V st st6)
                  (fst (page_links_loop chain_net url_seed (netloc chain_net url_seed)
                          (p_links (link_page [url_a])) V [] (technical_analyzer st6))),
                post_links chain_net (link_page [url_a]) url_seed V st6))"
  by (rule crawl_page_eq) simp_all

lemma chain_page_a:
  "crawl_page n chain_net url_a V st =
     (case analyze_internal_links n chain_net url_a (pre_links chain_net (link_page [url_b]) url_a st) of
        None \<Rightarrow> None
      | Some (V', st6) \<Rightarrow>
          Some (Analyzed (page_result chain_net (link_page [url_b]) url_a V st st6)
                  (fst (page_links_loop chain_net url_a (netloc chain_net url_a)
                          (p_links (link_page [url_b])) V [] (technical_analyzer st6))),
                post_links chain_net (link_page [url_b]) url_a V st6))"
  by (rule crawl_page_eq) simp_all

lemmas crawl_eval =
  analyze_internal_links_def eval_nat_numeral get_page_content_def is_internal_link_def
  graph_fields Let_def links_of_def page_result_sel page_result_metrics with_linked_pages_sel

lemma crawl_caseD:
  assumes "case x of None \<Rightarrow> False | Some (r, V, st) \<Rightarrow> P r st"
  shows "x \<noteq> None \<and> P (returned x) (final_state x)"
  using assms by (cases x) (auto simp: returned_def final_state_def)

lemma analysis_caseD:
  assumes "case x of None \<Rightarrow> False | Some (V, st) \<Rightarrow> P st"
  shows "x \<noteq> None \<and> P (analysis_state x)"
  using assms by (cases x) (auto simp: analysis_state_def)

text \<open>
  The crawl of the flaky site: the first load of /a fails during the link analysis of the
  seed, so the seed is recorded as an orphan; /a loads when it is crawled as a linked page,
  and its link gives the seed an inbound link.
\<close>

lemma flaky_final:
  "(case flaky_crawl of None \<Rightarrow> False
    | Some (r, V, st) \<Rightarrow>
        orphan_pages st = {url_seed} \<and> inbound_links st url_seed = {url_a}
        \<and> map fst (internal_links st) = [url_seed, url_a]
        \<and> fetch_log st = [url_seed, url_seed, url_a, url_a, url_a, url_seed]
        \<and> map_option (map analyzed_url \<circ> linked_pages) r = Some [url_a]
        \<and> map_option (map (map_option lm_orphan_pages \<circ> linking) \<circ> linked_pages) r
             = Some [Some {url_seed}])"
  by (simp add: flaky_crawl_def flaky_page_seed flaky_page_a crawl_eval)

lemma flaky_facts:
  "flaky_crawl \<noteq> None"
  "orphan_pages (final_state flaky_crawl) = {url_seed}"
  "inbound_links (final_state flaky_crawl) url_seed = {url_a}"
  "map fst (internal_links (final_state flaky_crawl)) = [url_seed, url_a]"
  "fetch_log (final_state flaky_crawl) = [url_seed, url_seed, url_a, url_a, url_a, url_seed]"
  "map_option (map analyzed_url \<circ> linked_pages) (returned flaky_crawl) = Some [url_a]"
  "map_option (map (map_option lm_orphan_pages \<circ> linking) \<circ> linked_pages) (returned flaky_crawl)
     = Some [Some {url_seed}]"
  using crawl_caseD[OF flaky_final] by simp_all

text \<open>
  The chain site: the link analysis of the seed alone, the whole crawl, and the call for the
  linked page /a.
\<close>

lemma chain_seed_analysis:
  "(case chain_analysis of None \<Rightarrow> False
    | Some (V, st) \<Rightarrow>
        page_depths st url_seed = Some 0 \<and> page_depths st url_a = Some 1
        \<and> page_depths st url_b = Some 2 \<and> page_depths st url_c = Some 3
        \<and> fetch_log st = [url_seed, url_a, url_b, url_c])"
  by (simp add: chain_analysis_def crawl_eval)

lemma chain_analysis_facts:
  "chain_analysis \<noteq> None"
  "page_depths (analysis_state chain_analysis) url_seed = Some 0"
  "page_depths (analysis_state chain_analysis) url_a = Some 1"
  "page_depths (analysis_state chain_analysis) url_b = Some 2"
  "page_depths (analysis_state chain_analysis) url_c = Some 3"
  using analysis_caseD[OF chain_seed_analysis] by simp_all

lemma chain_final:
  "(case chain_crawl of None \<Rightarrow> False
    | Some (r, V, st) \<Rightarrow>
        page_depths st url_seed = Some 0 \<and> page_depths st url_a = Some 0
        \<and> page_depths st url_b = Some 2 \<and> page_depths st url_c = Some 3
        \<and> inbound_links st url_a = {url_seed} \<and> inbound_links st url_b = {url_a}
        \<and> fetch_log st = [url_seed, url_seed, url_a, url_b, url_c, url_a, url_a, url_b, url_c]
        \<and> map_option (map analyzed_url \<circ> linked_pages) r = Some [url_a]
        \<and> map_option (map linked_pages \<circ> linked_pages) r = Some [[]]
        \<and> map_option (map (map_option (link_depth \<circ> pi_linking_metrics) \<circ> page_info) \<circ> linked_pages) r
             = Some [Some 0])"
  by (simp add: chain_crawl_def chain_page_seed chain_page_a crawl_eval)

lemma chain_facts:
  "chain_crawl \<noteq> None"
  "page_depths (final_state chain_crawl) url_seed = Some 0"
  "page_depths (final_state chain_crawl) url_a = Some 0"
  "page_depths (final_state chain_crawl) url_b = Some 2"
  "page_depths (final_state chain_crawl) url_c = Some 3"
  "inbound_links (final_state chain_crawl) url_a = {url_seed}"
  "inbound_links (final_state chain_crawl) url_b = {url_a}"
  "fetch_log (final_state chain_crawl)
     = [url_seed, url_seed, url_a, url_b, url_c, url_a, url_a, url_b, url_c]"
  "map_option (map analyzed_url \<circ> linked_pages) (returned chain_crawl) = Some [url_a]"
  "map_option (map linked_pages \<circ> linked_pages) (returned chain_crawl) = Some [[]]"
  "map_option (map (map_option (link_depth \<circ> pi_linking_metrics) \<circ> page_info) \<circ> linked_pages)
     (returned chain_crawl) = Some [Some 0]"
  using crawl_caseD[OF chain_final] by simp_all


subsection \<open>The shape of the result\<close>




subsection \<open>Claims about the crawl\<close>

text \<open>
  Claim C1 fails on the code. The claim: the seed has depth 0, and a newly discovered URL gets
  the depth of the page that first discovered it plus 1, once, and the depth is never
  recomputed. On the site seed \<rightarrow> /a \<rightarrow> /b \<rightarrow> /c the link analysis of the seed gives /a depth 1.
  \<^verbatim>\<open>crawl_site\<close> then crawls /a as a linked page and calls
  \<^verbatim>\<open>analyze_internal_links(url)\<close> for it without a visited set, and that call sets
  \<^verbatim>\<open>page_depths[url] = 0\<close>: when the crawl ends /a, whose only discoverer is the seed, has
  depth 0, the result of /a reports depth 0, and /b, whose only discoverer is /a, still has
  depth 2.
\<close>

theorem linked_page_depth_reset:
  "chain_analysis \<noteq> None
   \<and> page_depths (analysis_state chain_analysis) url_seed = Some 0
   \<and> page_depths (analysis_state chain_analysis) url_a = Some 1
   \<and> chain_crawl \<noteq> None
   \<and> inbound_links (final_state chain_crawl) url_a = {url_seed}
   \<and> inbound_links (final_state chain_crawl) url_b = {url_a}
   \<and> page_depths (final_state chain_crawl) url_seed = Some 0
   \<and> page_depths (final_state chain_crawl) url_a = Some 0
   \<and> page_depths (final_state chain_crawl) url_b = Some 2
   \<and> map_option (map analyzed_url \<circ> linked_pages) (returned chain_crawl) = Some [url_a]
   \<and> map_option (map (map_option (link_depth \<circ> pi_linking_metrics) \<circ> page_info) \<circ> linked_pages)
        (returned chain_crawl) = Some [Some 0]"
  by (simp add: chain_analysis_facts chain_facts)

text \<open>
  Claim C2 fails on the code. The claim: when the crawl is complete the orphan set holds
  exactly the keys of \<^verbatim>\<open>internal_links\<close> without an inbound link, so a page with a recorded
  inbound link is never in it. \<^verbatim>\<open>get_linking_metrics\<close> runs \<^verbatim>\<open>identify_orphan_pages\<close> for
  every crawled page, and \<^verbatim>\<open>identify_orphan_pages\<close> only adds. On the site where the seed
  links to /a, /a links back, and the first load of /a fails, the seed is added while it has
  no inbound link; the crawl of /a then records the link from /a to the seed. At the end the
  seed has the inbound link from /a, is still in the orphan set, and is in the orphan list
  reported with the result of /a.
\<close>

theorem orphan_kept_after_inbound_link:
  "flaky_crawl \<noteq> None
   \<and> map fst (internal_links (final_state flaky_crawl)) = [url_seed, url_a]
   \<and> inbound_links (final_state flaky_crawl) url_seed = {url_a}
   \<and> orphan_pages (final_state flaky_crawl) = {url_seed}
   \<and> map_option (map analyzed_url \<circ> linked_pages) (returned flaky_crawl) = Some [url_a]
   \<and> map_option (map (map_option lm_orphan_pages \<circ> linking) \<circ> linked_pages) (returned flaky_crawl)
        = Some [Some {url_seed}]"
  by (simp add: flaky_facts)





end
